theory Spec2Isabelle
  imports Main
begin

section \<open>Python values and the solver adapter\<close>

text \<open>
  The GUI module \<^verbatim>\<open>gui.py\<close> imports \<^verbatim>\<open>Crossword\<close> and \<^verbatim>\<open>CrosswordCreator\<close> from
  modules that are not part of the sources at hand. Their objects are modelled by what
  the GUI reads from them: attributes become record fields, and a method becomes a field
  holding the result of calling it.

  An exception is a value. Only instances of Python's \<^verbatim>\<open>Exception\<close> are modelled (the
  class both \<^verbatim>\<open>except\<close> clauses of the worker name); each carries the text \<^verbatim>\<open>str(exc)\<close>.
  \<^verbatim>\<open>ImportError\<close> is kept apart because the worker has a clause of its own for it, and
  \<^verbatim>\<open>IndexError\<close> because list indexing raises it.
\<close>

datatype py_exception =
    ImportError string
  | IndexError string
  | OtherException string

fun str_exc :: "py_exception \<Rightarrow> string" where
  "str_exc (ImportError m) = m"
| "str_exc (IndexError m) = m"
| "str_exc (OtherException m) = m"

text \<open>\<^verbatim>\<open>xs[i]\<close> for an index produced by \<^verbatim>\<open>range\<close> (never negative).\<close>

definition getitem :: "'a list \<Rightarrow> nat \<Rightarrow> py_exception + 'a" where
  "getitem xs i =
     (if i < length xs then Inr (xs ! i) else Inl (IndexError ''list index out of range''))"

text \<open>\<^verbatim>\<open>x or " "\<close> where \<^verbatim>\<open>x\<close> is \<^verbatim>\<open>None\<close> or a \<^verbatim>\<open>str\<close>: both \<^verbatim>\<open>None\<close> and the empty string are falsy.\<close>

fun or_str :: "string option \<Rightarrow> string \<Rightarrow> string" where
  "or_str None d = d"
| "or_str (Some s) d = (if s = [] then d else s)"

text \<open>\<^verbatim>\<open>sep.join(xs)\<close>.\<close>

fun str_join :: "string \<Rightarrow> string list \<Rightarrow> string" where
  "str_join sep [] = []"
| "str_join sep [x] = x"
| "str_join sep (x # y # ys) = x @ sep @ str_join sep (y # ys)"

text \<open>
  \<^verbatim>\<open>creator.crossword\<close>: the attributes \<^verbatim>\<open>height\<close>, \<^verbatim>\<open>width\<close> and \<^verbatim>\<open>structure\<close>
  (\<^verbatim>\<open>structure[i][j]\<close> is truthy for an open cell; the field is named \<open>structure_cw\<close>,
  \<open>structure\<close> being a reserved word).
\<close>

record crossword =
  height :: nat
  width :: nat
  structure_cw :: "bool list list"

text \<open>
  A \<^verbatim>\<open>CrosswordCreator\<close>. The type \<open>'a\<close> is the type of assignments, opaque to the GUI.
  \<open>solve\<close> is the result of \<^verbatim>\<open>creator.solve()\<close> (\<open>Inr None\<close> when it returns \<^verbatim>\<open>None\<close>),
  \<open>letter_grid\<close> the result of \<^verbatim>\<open>creator.letter_grid(assignment)\<close> (the grid it returns, or
  the exception it raises), and \<open>save\<close> the exception \<^verbatim>\<open>creator.save(assignment, path)\<close>
  raises, if any.
\<close>

record 'a creator =
  crossword :: crossword
  solve :: "py_exception + 'a option"
  letter_grid :: "'a \<Rightarrow> py_exception + string option list list"
  save :: "'a \<Rightarrow> string \<Rightarrow> py_exception option"

section \<open>Rendering: \<^verbatim>\<open>_format_assignment\<close>\<close>

text \<open>
  The inner loop \<^verbatim>\<open>for j in range(width)\<close> of row \<open>i\<close>, with \<open>row_chars\<close> the list built so
  far. An index out of range raises, which ends the loop with \<open>Inl\<close>.
\<close>

fun row_loop ::
  "crossword \<Rightarrow> string option list list \<Rightarrow> nat \<Rightarrow> nat list \<Rightarrow> string list
    \<Rightarrow> py_exception + string list" where
  "row_loop cw letters i [] row_chars = Inr row_chars"
| "row_loop cw letters i (j # js) row_chars =
     (case getitem (structure_cw cw) i of
        Inl e \<Rightarrow> Inl e
      | Inr srow \<Rightarrow>
          (case getitem srow j of
             Inl e \<Rightarrow> Inl e
           | Inr opn \<Rightarrow>
               if opn then
                 (case getitem letters i of
                    Inl e \<Rightarrow> Inl e
                  | Inr lrow \<Rightarrow>
                      (case getitem lrow j of
                         Inl e \<Rightarrow> Inl e
                       | Inr l \<Rightarrow> row_loop cw letters i js (row_chars @ [or_str l '' ''])))
               else row_loop cw letters i js (row_chars @ [''#''])))"

text \<open>The outer loop \<^verbatim>\<open>for i in range(height)\<close>, with \<open>lines\<close> the list built so far.\<close>

fun lines_loop ::
  "crossword \<Rightarrow> string option list list \<Rightarrow> nat list \<Rightarrow> string list
    \<Rightarrow> py_exception + string list" where
  "lines_loop cw letters [] lines = Inr lines"
| "lines_loop cw letters (i # is) lines =
     (case row_loop cw letters i [0..<width cw] [] of
        Inl e \<Rightarrow> Inl e
      | Inr row_chars \<Rightarrow> lines_loop cw letters is (lines @ [concat row_chars]))"

definition format_assignment :: "'a creator \<Rightarrow> 'a \<Rightarrow> py_exception + string" where
  "format_assignment creator assignment =
     (case letter_grid creator assignment of
        Inl e \<Rightarrow> Inl e
      | Inr letters \<Rightarrow>
          (case lines_loop (crossword creator) letters [0..<height (crossword creator)] [] of
             Inl e \<Rightarrow> Inl e
           | Inr lines \<Rightarrow> Inr (str_join ''\<newline>'' lines)))"

subsection \<open>What the rendering is expected to produce\<close>

text \<open>
  The two reads of cell \<open>(i, j)\<close> stay in range: \<^verbatim>\<open>structure[i][j]\<close> always, and
  \<^verbatim>\<open>letters[i][j]\<close> where the cell is open (the only place the loop reads it).
\<close>

definition cell_ok :: "crossword \<Rightarrow> string option list list \<Rightarrow> nat \<Rightarrow> nat \<Rightarrow> bool" where
  "cell_ok cw letters i j =
     (i < length (structure_cw cw) \<and> j < length (structure_cw cw ! i) \<and>
      (structure_cw cw ! i ! j \<longrightarrow> i < length letters \<and> j < length (letters ! i)))"

text \<open>The grids cover the dimensions: no read of the two loops is out of range.\<close>

definition in_range :: "crossword \<Rightarrow> string option list list \<Rightarrow> bool" where
  "in_range cw letters = (\<forall>i<height cw. \<forall>j<width cw. cell_ok cw letters i j)"

text \<open>
  The letter of every open cell is a single character (or falsy): Python has no character
  type, a letter is a string.
\<close>

definition single_letters :: "crossword \<Rightarrow> string option list list \<Rightarrow> bool" where
  "single_letters cw letters =
     (\<forall>i<height cw. \<forall>j<width cw.
        structure_cw cw ! i ! j \<longrightarrow>
          (case letters ! i ! j of
             None \<Rightarrow> True
           | Some s \<Rightarrow> length s \<le> 1))"

definition well_formed :: "crossword \<Rightarrow> string option list list \<Rightarrow> bool" where
  "well_formed cw letters = (in_range cw letters \<and> single_letters cw letters)"

text \<open>No letter of an open cell is a line break.\<close>

definition no_line_breaks :: "crossword \<Rightarrow> string option list list \<Rightarrow> bool" where
  "no_line_breaks cw letters =
     (\<forall>i<height cw. \<forall>j<width cw.
        structure_cw cw ! i ! j \<longrightarrow> letters ! i ! j \<noteq> Some ''\<newline>'')"

text \<open>
  \<^verbatim>\<open>creator.letter_grid(assignment)\<close> returns a grid, and that grid and the structure
  cover the dimensions.
\<close>

definition renders :: "'a creator \<Rightarrow> 'a \<Rightarrow> bool" where
  "renders creator assignment =
     (case letter_grid creator assignment of
        Inl e \<Rightarrow> False
      | Inr letters \<Rightarrow> in_range (crossword creator) letters)"

text \<open>The character shown for cell \<open>(i, j)\<close> when its letter is a single character.\<close>

definition cell_char :: "crossword \<Rightarrow> string option list list \<Rightarrow> nat \<Rightarrow> nat \<Rightarrow> char" where
  "cell_char cw letters i j =
     (if structure_cw cw ! i ! j then
        (case letters ! i ! j of
           None \<Rightarrow> CHR '' ''
         | Some s \<Rightarrow> if s = [] then CHR '' '' else hd s)
      else CHR ''#'')"

text \<open>
  \<^verbatim>\<open>text.split(sep)\<close> for a separator of one character: the pieces of \<open>text\<close> between the
  occurrences of \<open>sep\<close> (one piece, the empty one, for the empty text).
\<close>

fun split_on :: "char \<Rightarrow> string \<Rightarrow> string list" where
  "split_on sep [] = [[]]"
| "split_on sep (c # cs) =
     (if c = sep then [] # split_on sep cs
      else (case split_on sep cs of
              [] \<Rightarrow> [[c]]
            | l # ls \<Rightarrow> (c # l) # ls))"

text \<open>The piece of text of cell \<open>(i, j)\<close>, and the text of row \<open>i\<close>: its cells, left to right.\<close>

definition cell_text :: "crossword \<Rightarrow> string option list list \<Rightarrow> nat \<Rightarrow> nat \<Rightarrow> string" where
  "cell_text cw letters i j =
     (if structure_cw cw ! i ! j then or_str (letters ! i ! j) '' '' else ''#'')"

definition row_text :: "crossword \<Rightarrow> string option list list \<Rightarrow> nat \<Rightarrow> string" where
  "row_text cw letters i = concat (map (cell_text cw letters i) [0..<width cw])"

text \<open>
  A small model to evaluate on: a 2 by 2 grid whose cell \<open>(0, 1)\<close> is blocked, with the
  letters \<open>a\<close> at \<open>(0, 0)\<close> and \<open>b\<close> at \<open>(1, 1)\<close>; saving fails for want of the image library.
\<close>

definition demo_crossword :: crossword where
  "demo_crossword = \<lparr> height = 2, width = 2, structure_cw = [[True, False], [True, True]] \<rparr>"

definition demo_creator :: "nat creator" where
  "demo_creator =
     \<lparr> crossword = demo_crossword, solve = Inr (Some 0),
       letter_grid = (\<lambda>a. Inr [[Some ''a'', None], [None, Some ''b'']]),
       save = (\<lambda>a path. Some (ImportError ''No module named PIL'')) \<rparr>"

section \<open>The application object\<close>

datatype tk_state = NORMAL | DISABLED

text \<open>A message box that has been shown: title and message.\<close>

datatype dialog = InfoBox string string | ErrorBox string string

text \<open>
  What \<^verbatim>\<open>root.after(0, ...)\<close> is given in this module: \<^verbatim>\<open>self._write_output\<close> with a text,
  \<^verbatim>\<open>self.status_var.set\<close> with a text, the two message-box lambdas, and the lambda that
  sets the button back to \<^verbatim>\<open>tk.NORMAL\<close>.
\<close>

datatype callback =
    WriteOutput string
  | StatusVarSet string
  | ShowInfo string
  | ShowError string
  | ButtonNormal

text \<open>
  The fields of \<^verbatim>\<open>CrosswordApp\<close> and of the Tk root it holds: the four \<^verbatim>\<open>StringVar\<close>s, the
  state of the Solve button, the state and content of the output \<^verbatim>\<open>Text\<close> widget, the
  message boxes shown so far, and the callbacks scheduled with \<^verbatim>\<open>root.after(0, ...)\<close> that
  the event loop has not run yet, oldest first.
\<close>

record app =
  structure_path :: string
  words_path :: string
  output_path :: string
  status_var :: string
  solve_button :: tk_state
  output_state :: tk_state
  output_text :: string
  dialogs :: "dialog list"
  after_queue :: "callback list"

definition DEFAULT_STRUCTURE :: string where
  "DEFAULT_STRUCTURE = ''data/structure0.txt''"

definition DEFAULT_WORDS :: string where
  "DEFAULT_WORDS = ''data/words0.txt''"

text \<open>\<^verbatim>\<open>CrosswordApp.__init__\<close> with \<^verbatim>\<open>_build_layout\<close>: a Tk button starts out \<^verbatim>\<open>NORMAL\<close>.\<close>

definition init :: app where
  "init = \<lparr> structure_path = DEFAULT_STRUCTURE, words_path = DEFAULT_WORDS,
            output_path = [], status_var = ''Idle'', solve_button = NORMAL,
            output_state = DISABLED, output_text = [], dialogs = [], after_queue = [] \<rparr>"

subsection \<open>Callbacks, run by the event loop\<close>

text \<open>A Tk \<^verbatim>\<open>Text\<close> widget ignores \<^verbatim>\<open>delete\<close> and \<^verbatim>\<open>insert\<close> while it is \<^verbatim>\<open>DISABLED\<close>.\<close>

definition output_delete_all :: "app \<Rightarrow> app" where
  "output_delete_all s = (if output_state s = NORMAL then s\<lparr>output_text := []\<rparr> else s)"

definition output_insert_end :: "string \<Rightarrow> app \<Rightarrow> app" where
  "output_insert_end text s =
     (if output_state s = NORMAL then s\<lparr>output_text := output_text s @ text\<rparr> else s)"

definition write_output :: "string \<Rightarrow> app \<Rightarrow> app" where
  "write_output text s =
     (let s1 = s\<lparr>output_state := NORMAL\<rparr>;
          s2 = output_delete_all s1;
          s3 = output_insert_end text s2
      in s3\<lparr>output_state := DISABLED\<rparr>)"

fun run_callback :: "callback \<Rightarrow> app \<Rightarrow> app" where
  "run_callback (WriteOutput text) s = write_output text s"
| "run_callback (StatusVarSet text) s = s\<lparr>status_var := text\<rparr>"
| "run_callback (ShowInfo message) s =
     s\<lparr>dialogs := dialogs s @ [InfoBox ''Crossword Solver'' message]\<rparr>"
| "run_callback (ShowError message) s =
     s\<lparr>dialogs := dialogs s @ [ErrorBox ''Crossword Solver'' message]\<rparr>"
| "run_callback ButtonNormal s = s\<lparr>solve_button := NORMAL\<rparr>"

text \<open>One turn of the event loop: the oldest scheduled callback runs.\<close>

definition mainloop_once :: "app \<Rightarrow> app" where
  "mainloop_once s =
     (case after_queue s of
        [] \<Rightarrow> s
      | cb # q \<Rightarrow> run_callback cb (s\<lparr>after_queue := q\<rparr>))"

text \<open>The event loop running a list of callbacks in order.\<close>

definition run_callbacks :: "callback list \<Rightarrow> app \<Rightarrow> app" where
  "run_callbacks cbs s = foldl (\<lambda>s cb. run_callback cb s) s cbs"

subsection \<open>The posting helpers\<close>

text \<open>\<^verbatim>\<open>self.root.after(0, cb)\<close>: the callback joins the queue behind those already there.\<close>

definition after :: "callback \<Rightarrow> app \<Rightarrow> app" where
  "after cb s = s\<lparr>after_queue := after_queue s @ [cb]\<rparr>"

definition set_output :: "string \<Rightarrow> app \<Rightarrow> app" where
  "set_output text s = after (WriteOutput text) s"

definition clear_output :: "app \<Rightarrow> app" where
  "clear_output s = set_output [] s"

definition notify_info :: "string \<Rightarrow> app \<Rightarrow> app" where
  "notify_info message s = after (ShowInfo message) s"

definition notify_error :: "string \<Rightarrow> app \<Rightarrow> app" where
  "notify_error message s = after (ShowError message) s"

definition set_status :: "string \<Rightarrow> app \<Rightarrow> app" where
  "set_status text s = after (StatusVarSet text) s"

definition enable_button :: "app \<Rightarrow> app" where
  "enable_button s = after ButtonNormal s"

section \<open>The worker: \<^verbatim>\<open>_solve_in_thread\<close>\<close>

text \<open>
  The two classes the module imports: \<open>Crossword\<close> is the result of
  \<^verbatim>\<open>Crossword(structure_path, words_path)\<close> and \<open>CrosswordCreator\<close> that of
  \<^verbatim>\<open>CrosswordCreator(crossword)\<close>; either may raise.
\<close>

record 'a adapter =
  Crossword :: "string \<Rightarrow> string \<Rightarrow> py_exception + crossword"
  CrosswordCreator :: "crossword \<Rightarrow> py_exception + 'a creator"

text \<open>The body of the first \<^verbatim>\<open>try\<close>: \<open>Inl\<close> is the exception its \<^verbatim>\<open>except Exception\<close> receives.\<close>

definition try_solve :: "'a adapter \<Rightarrow> app \<Rightarrow> py_exception + ('a creator \<times> 'a option)" where
  "try_solve env s =
     (case Crossword env (structure_path s) (words_path s) of
        Inl exc \<Rightarrow> Inl exc
      | Inr cw \<Rightarrow>
          (case CrosswordCreator env cw of
             Inl exc \<Rightarrow> Inl exc
           | Inr creator \<Rightarrow>
               (case solve creator of
                  Inl exc \<Rightarrow> Inl exc
                | Inr assignment \<Rightarrow> Inr (creator, assignment))))"

text \<open>The message of the \<^verbatim>\<open>except ImportError\<close> clause, a literal in the source.\<close>

definition pillow_message :: string where
  "pillow_message =
     ''Pillow is required to save an image. Install it with 'pip install pillow'.''"

text \<open>
  The \<^verbatim>\<open>if self.output_path.get():\<close> block. \<^verbatim>\<open>except ImportError\<close> stands before
  \<^verbatim>\<open>except Exception\<close>, so it takes an \<^verbatim>\<open>ImportError\<close> first.
\<close>

definition save_image :: "'a creator \<Rightarrow> 'a \<Rightarrow> app \<Rightarrow> app" where
  "save_image creator assignment s =
     (if output_path s \<noteq> [] then
        (case save creator assignment (output_path s) of
           None \<Rightarrow> notify_info (''Image saved to '' @ output_path s) s
         | Some (ImportError m) \<Rightarrow> notify_error pillow_message s
         | Some exc \<Rightarrow> notify_error (''Could not save image: '' @ str_exc exc) s)
      else s)"

text \<open>The callbacks the save block schedules.\<close>

definition save_posts :: "'a creator \<Rightarrow> 'a \<Rightarrow> app \<Rightarrow> callback list" where
  "save_posts creator assignment s =
     after_queue (save_image creator assignment (s\<lparr>after_queue := []\<rparr>))"

text \<open>
  The worker's body. The result is the application object after it and the exception that
  left the thread, if one did: \<^verbatim>\<open>_format_assignment\<close> is called outside both \<^verbatim>\<open>try\<close>
  blocks, so what it raises is not caught. The three paths are read from the application
  object as it is when the worker runs; nothing in the model edits them meanwhile.
\<close>

definition solve_in_thread :: "'a adapter \<Rightarrow> app \<Rightarrow> app \<times> py_exception option" where
  "solve_in_thread env s =
     (case try_solve env s of
        Inl exc \<Rightarrow>
          (let s1 = notify_error (''Error while solving: '' @ str_exc exc) s;
               s2 = set_status ''Error'' s1;
               s3 = enable_button s2
           in (s3, None))
      | Inr (creator, None) \<Rightarrow>
          (let s1 = set_status ''No solution found'' s;
               s2 = notify_info ''No solution could be generated for the chosen files.'' s1;
               s3 = clear_output s2;
               s4 = enable_button s3
           in (s4, None))
      | Inr (creator, Some assignment) \<Rightarrow>
          (case format_assignment creator assignment of
             Inl exc \<Rightarrow> (s, Some exc)
           | Inr grid_text \<Rightarrow>
               (let s1 = set_output grid_text s;
                    s2 = set_status ''Solved'' s1;
                    s3 = save_image creator assignment s2;
                    s4 = enable_button s3
                in (s4, None))))"

section \<open>The process: event loop, button and worker threads\<close>

text \<open>
  The callbacks a worker started on \<open>s\<close> passes to \<^verbatim>\<open>root.after\<close>, in the order it does.
\<close>

definition worker_posts :: "'a adapter \<Rightarrow> app \<Rightarrow> callback list" where
  "worker_posts env s = after_queue (fst (solve_in_thread env (s\<lparr>after_queue := []\<rparr>)))"

text \<open>
  The running program: the application object and every worker thread started so far,
  newest first, each with the callbacks it has yet to post (none left: the thread has
  ended). What the adapter will answer to a worker is fixed when the worker is started.
\<close>

record process =
  gui :: app
  threads :: "callback list list"

text \<open>
  \<^verbatim>\<open>_solve\<close>, the command of the Solve button (here \<open>app_solve\<close>; \<open>solve\<close> is the
  creator's method).
\<close>

definition app_solve :: "'a adapter \<Rightarrow> process \<Rightarrow> process" where
  "app_solve env p =
     (let s1 = set_status ''Solving...'' (gui p);
          s2 = s1\<lparr>solve_button := DISABLED\<rparr>
      in \<lparr> gui = s2, threads = worker_posts env s2 # threads p \<rparr>)"

text \<open>
  What can happen next: the user clicks the Solve button (Tk does not call the command of
  a \<^verbatim>\<open>DISABLED\<close> button); \<^verbatim>\<open>_solve\<close> is called directly; worker thread \<open>k\<close> makes its
  next \<^verbatim>\<open>root.after\<close> call; the event loop runs one callback.
\<close>

datatype 'a event =
    Click "'a adapter"
  | Call_solve "'a adapter"
  | Worker nat
  | Mainloop

fun step :: "'a event \<Rightarrow> process \<Rightarrow> process" where
  "step (Click env) p = (if solve_button (gui p) = NORMAL then app_solve env p else p)"
| "step (Call_solve env) p = app_solve env p"
| "step (Worker k) p =
     (if k < length (threads p) then
        (case threads p ! k of
           [] \<Rightarrow> p
         | cb # rest \<Rightarrow> p\<lparr>gui := after cb (gui p), threads := (threads p)[k := rest]\<rparr>)
      else p)"
| "step Mainloop p = p\<lparr>gui := mainloop_once (gui p)\<rparr>"

definition run :: "'a event list \<Rightarrow> process \<Rightarrow> process" where
  "run es p = foldl (\<lambda>p e. step e p) p es"

text \<open>The program once the window is up and the user has filled in the three paths.\<close>

definition startup :: "string \<Rightarrow> string \<Rightarrow> string \<Rightarrow> process" where
  "startup sp wp op =
     \<lparr> gui = init\<lparr>structure_path := sp, words_path := wp, output_path := op\<rparr>,
       threads = [] \<rparr>"

text \<open>Every event but a direct call of \<^verbatim>\<open>_solve\<close>.\<close>

fun regular_event :: "'a event \<Rightarrow> bool" where
  "regular_event (Call_solve env) = False"
| "regular_event e = True"

section \<open>The session states of the specification\<close>

text \<open>
  The module keeps no state variable: what it publishes is the text of \<^verbatim>\<open>status_var\<close>.
  The specification's five states are read off that text.
\<close>

datatype state = Idle | Solving | Solved | NoSolution | Error

definition state_of :: "string \<Rightarrow> state option" where
  "state_of text =
     (if text = ''Idle'' then Some Idle
      else if text = ''Solving...'' then Some Solving
      else if text = ''Solved'' then Some Solved
      else if text = ''No solution found'' then Some NoSolution
      else if text = ''Error'' then Some Error
      else None)"

definition terminal :: "string \<Rightarrow> bool" where
  "terminal text =
     (state_of text = Some Solved \<or> state_of text = Some NoSolution \<or>
      state_of text = Some Error)"

fun publishes_terminal :: "callback \<Rightarrow> bool" where
  "publishes_terminal (StatusVarSet text) = terminal text"
| "publishes_terminal cb = False"

fun publishes_status :: "callback \<Rightarrow> bool" where
  "publishes_status (StatusVarSet text) = True"
| "publishes_status cb = False"

text \<open>
  Whenever solving yields an assignment, \<^verbatim>\<open>letter_grid\<close> returns for it and the grids cover
  the dimensions, so that rendering it raises nothing.
\<close>

definition renderable :: "'a adapter \<Rightarrow> app \<Rightarrow> bool" where
  "renderable env s =
     (case try_solve env s of
        Inl exc \<Rightarrow> True
      | Inr (creator, None) \<Rightarrow> True
      | Inr (creator, Some assignment) \<Rightarrow> renders creator assignment)"

text \<open>
  The changes of the status text the state machine has: into Solving from any other state,
  and out of Solving into a terminal state.
\<close>

definition allowed :: "string \<Rightarrow> string \<Rightarrow> bool" where
  "allowed a b =
     ((state_of a \<noteq> None \<and> state_of a \<noteq> Some Solving \<and> state_of b = Some Solving) \<or>
      (state_of a = Some Solving \<and> terminal b))"

text \<open>
  Every callback that is scheduled or that a live worker has yet to schedule, in the order
  in which the event loop will run them.
\<close>

definition pipeline :: "process \<Rightarrow> callback list" where
  "pipeline p = after_queue (gui p) @ concat (threads p)"

text \<open>
  Running the callbacks \<open>cbs\<close> from status \<open>cur\<close> changes the status only along allowed
  changes, and the button is set back to normal last and in a terminal state.
\<close>

fun chain_ok :: "string \<Rightarrow> callback list \<Rightarrow> bool" where
  "chain_ok cur [] = True"
| "chain_ok cur (StatusVarSet text # cbs) = (allowed cur text \<and> chain_ok text cbs)"
| "chain_ok cur (ButtonNormal # cbs) = (terminal cur \<and> cbs = [])"
| "chain_ok cur (cb # cbs) = chain_ok cur cbs"

definition invariant :: "process \<Rightarrow> bool" where
  "invariant p =
     (state_of (status_var (gui p)) \<noteq> None \<and>
      chain_ok (status_var (gui p)) (pipeline p) \<and>
      (\<forall>t\<in>set (tl (threads p)). t = []) \<and>
      (solve_button (gui p) = NORMAL \<longrightarrow>
         pipeline p = [] \<and> state_of (status_var (gui p)) \<noteq> Some Solving))"

text \<open>The status texts the callbacks \<open>cbs\<close> will publish, in order.\<close>

fun status_texts :: "callback list \<Rightarrow> string list" where
  "status_texts [] = []"
| "status_texts (StatusVarSet text # cbs) = text # status_texts cbs"
| "status_texts (cb # cbs) = status_texts cbs"

text \<open>The status text once the event loop has run the callback \<open>cb\<close> at status \<open>cur\<close>.\<close>

fun status_after :: "callback \<Rightarrow> string \<Rightarrow> string" where
  "status_after (StatusVarSet t) cur = t"
| "status_after cb cur = cur"

text \<open>
  What is still to be published while a solve is in flight, at status \<open>cur\<close>: Solving and
  then one terminal state; or, once Solving is published, one terminal state; or, once that
  is published too, nothing.
\<close>

fun awaited :: "string \<Rightarrow> string list \<Rightarrow> bool" where
  "awaited cur [] = terminal cur"
| "awaited cur [t] = (state_of cur = Some Solving \<and> terminal t)"
| "awaited cur [a, t] =
     (state_of cur \<noteq> Some Solving \<and> state_of a = Some Solving \<and> terminal t)"
| "awaited cur ts = False"

text \<open>
  While the button is disabled a solve is on its course: something is pending, the
  re-enabling of the button is pending once, as the last callback, and the status
  publications pending are the awaited ones.
\<close>

definition on_course :: "process \<Rightarrow> bool" where
  "on_course p =
     (solve_button (gui p) = DISABLED \<longrightarrow>
        pipeline p \<noteq> [] \<and> last (pipeline p) = ButtonNormal \<and>
        length (filter (\<lambda>cb. cb = ButtonNormal) (pipeline p)) = 1 \<and>
        awaited (status_var (gui p)) (status_texts (pipeline p)))"

text \<open>
  While the button is disabled, whatever the worker did: if nothing is pending the state
  is Solving; and what is pending ends with the re-enabling of the button, unless it is
  only the publication of Solving.
\<close>

definition quiet_is_solving :: "process \<Rightarrow> bool" where
  "quiet_is_solving p =
     (solve_button (gui p) = DISABLED \<longrightarrow>
        (pipeline p = [] \<longrightarrow> state_of (status_var (gui p)) = Some Solving) \<and>
        (pipeline p = [] \<or> last (pipeline p) = ButtonNormal \<or>
         pipeline p = [StatusVarSet ''Solving...'']))"

text \<open>A click whose worker, with the paths of \<open>s\<close>, gets through rendering.\<close>

fun sound_event :: "app \<Rightarrow> 'a event \<Rightarrow> bool" where
  "sound_event s (Click env) = renderable env s"
| "sound_event s e = True"

text \<open>
  The program left to itself: the worker passes every callback it still has to
  \<^verbatim>\<open>root.after\<close>, then the event loop runs every callback scheduled.
\<close>

definition finish :: "process \<Rightarrow> process" where
  "finish p =
     run (replicate (length (concat (threads p))) (Worker 0 :: unit event) @
          replicate (length (pipeline p)) Mainloop) p"

text \<open>An adapter that yields the small model above, and two runs of the program with it.\<close>

definition demo_env :: "nat adapter" where
  "demo_env =
     \<lparr> Crossword = (\<lambda>sp wp. Inr demo_crossword),
       CrosswordCreator = (\<lambda>cw. Inr demo_creator) \<rparr>"

definition demo_no_solution_env :: "nat adapter" where
  "demo_no_solution_env =
     \<lparr> Crossword = (\<lambda>sp wp. Inr demo_crossword),
       CrosswordCreator = (\<lambda>cw. Inr (demo_creator\<lparr>solve := Inr None\<rparr>)) \<rparr>"

definition demo_error_env :: "nat adapter" where
  "demo_error_env =
     \<lparr> Crossword = (\<lambda>sp wp. Inl (OtherException (''No such file or directory: '' @ sp))),
       CrosswordCreator = (\<lambda>cw. Inr demo_creator) \<rparr>"

text \<open>
  Two adapters whose solved model does not render: \<^verbatim>\<open>letter_grid\<close> raises, or it returns
  a grid of one row for the model of two.
\<close>

definition demo_unrenderable_env :: "nat adapter" where
  "demo_unrenderable_env =
     \<lparr> Crossword = (\<lambda>sp wp. Inr demo_crossword),
       CrosswordCreator = (\<lambda>cw. Inr (demo_creator\<lparr>letter_grid :=
         (\<lambda>a. Inl (IndexError ''list assignment index out of range''))\<rparr>)) \<rparr>"

definition demo_short_grid_env :: "nat adapter" where
  "demo_short_grid_env =
     \<lparr> Crossword = (\<lambda>sp wp. Inr demo_crossword),
       CrosswordCreator = (\<lambda>cw. Inr (demo_creator\<lparr>letter_grid :=
         (\<lambda>a. Inr [[Some ''a'', None]])\<rparr>)) \<rparr>"

definition demo_app :: app where
  "demo_app = init\<lparr>output_path := ''out.png''\<rparr>"

definition demo_solving :: process where
  "demo_solving =
     run [Click demo_env, Mainloop] (startup DEFAULT_STRUCTURE DEFAULT_WORDS ''out.png'')"

definition demo_published :: process where
  "demo_published =
     run [Click demo_env, Worker 0, Worker 0, Mainloop, Mainloop, Mainloop]
       (startup DEFAULT_STRUCTURE DEFAULT_WORDS ''out.png'')"

section \<open>Properties of the rendering\<close>

lemma row_loop_ok:
  "\<forall>j\<in>set js. cell_ok cw letters i j \<Longrightarrow>
   row_loop cw letters i js acc = Inr (acc @ map (cell_text cw letters i) js)"
  by (induction js arbitrary: acc) (auto simp: cell_ok_def cell_text_def getitem_def)

lemma row_loop_Inr:
  "row_loop cw letters i js acc = Inr r \<Longrightarrow> \<forall>j\<in>set js. cell_ok cw letters i j"
  by (induction js arbitrary: acc) (auto simp: cell_ok_def getitem_def split: sum.splits if_splits)

lemma lines_loop_ok:
  "\<forall>i\<in>set is. \<forall>j<width cw. cell_ok cw letters i j \<Longrightarrow>
   lines_loop cw letters is acc = Inr (acc @ map (row_text cw letters) is)"
  by (induction "is" arbitrary: acc) (auto simp: row_loop_ok row_text_def)

lemma lines_loop_Inr:
  "lines_loop cw letters is acc = Inr r \<Longrightarrow> \<forall>i\<in>set is. \<forall>j<width cw. cell_ok cw letters i j"
proof (induction "is" arbitrary: acc)
  case Nil
  then show ?case by simp
next
  case (Cons i "is")
  then show ?case
    by (auto split: sum.splits dest!: row_loop_Inr)
qed


lemma format_ok:
  "letter_grid creator a = Inr letters \<Longrightarrow> in_range (crossword creator) letters \<Longrightarrow>
   format_assignment creator a =
     Inr (str_join ''\<newline>''
       (map (row_text (crossword creator) letters) [0..<height (crossword creator)]))"
  by (simp add: format_assignment_def in_range_def lines_loop_ok)

lemma format_Inr_iff:
  "(\<exists>t. format_assignment creator a = Inr t) \<longleftrightarrow> renders creator a"
proof (cases "letter_grid creator a")
  case (Inl e)
  then show ?thesis
    by (simp add: format_assignment_def renders_def)
next
  case (Inr letters)
  show ?thesis
  proof
    assume "\<exists>t. format_assignment creator a = Inr t"
    then obtain r where
      "lines_loop (crossword creator) letters [0..<height (crossword creator)] [] = Inr r"
      using Inr by (auto simp: format_assignment_def split: sum.splits)
    from lines_loop_Inr [OF this] show "renders creator a"
      using Inr by (simp add: renders_def in_range_def)
  next
    assume "renders creator a"
    with Inr have "in_range (crossword creator) letters"
      by (simp add: renders_def)
    from format_ok [OF Inr this] show "\<exists>t. format_assignment creator a = Inr t"
      by simp
  qed
qed

lemma concat_singletons:
  "\<forall>x\<in>set xs. length (f x) = 1 \<Longrightarrow> concat (map f xs) = map (\<lambda>x. hd (f x)) xs"
proof (induction xs)
  case Nil
  then show ?case by simp
next
  case (Cons x xs)
  then have "length (f x) = 1" by simp
  then obtain c where "f x = [c]"
    by (cases "f x") auto
  with Cons show ?case by simp
qed

lemma hd_cell_text: "hd (cell_text cw letters i j) = cell_char cw letters i j"
  by (simp add: cell_text_def cell_char_def split: option.splits)

lemma length_cell_text:
  assumes s: "single_letters cw letters" and i: "i < height cw" and j: "j < width cw"
  shows "length (cell_text cw letters i j) = 1"
proof (cases "structure_cw cw ! i ! j")
  case False
  then show ?thesis by (simp add: cell_text_def)
next
  case True
  with s i j have "case letters ! i ! j of None \<Rightarrow> True | Some s \<Rightarrow> length s \<le> 1"
    by (simp add: single_letters_def)
  then have "length (or_str (letters ! i ! j) '' '') = 1"
    by (cases "letters ! i ! j") (auto simp: le_Suc_eq)
  with True show ?thesis by (simp add: cell_text_def)
qed

lemma row_text_map:
  assumes "single_letters cw letters" "i < height cw"
  shows "row_text cw letters i = map (cell_char cw letters i) [0..<width cw]"
proof -
  have "concat (map (cell_text cw letters i) [0..<width cw]) =
        map (\<lambda>j. hd (cell_text cw letters i j)) [0..<width cw]"
    by (rule concat_singletons) (simp add: length_cell_text [OF assms])
  then show ?thesis by (simp add: row_text_def hd_cell_text)
qed

lemma row_text_length:
  "single_letters cw letters \<Longrightarrow> i < height cw \<Longrightarrow> length (row_text cw letters i) = width cw"
  by (simp add: row_text_map)

lemma str_join_nth:
  "\<forall>l\<in>set ls. length l = w \<Longrightarrow> i < length ls \<Longrightarrow> j < w \<Longrightarrow>
   str_join sep ls ! (i * (w + length sep) + j) = ls ! i ! j"
proof (induction sep ls arbitrary: i rule: str_join.induct)
  case (1 sep)
  then show ?case by simp
next
  case (2 sep x)
  then show ?case by simp
next
  case (3 sep x y ys)
  show ?case
  proof (cases i)
    case 0
    with 3 show ?thesis by (simp add: nth_append)
  next
    case (Suc k)
    with 3 have "str_join sep (y # ys) ! (k * (w + length sep) + j) = (y # ys) ! k ! j"
      by simp
    moreover have "length x = w" using 3 by simp
    ultimately show ?thesis using Suc
      by (simp add: nth_append)
  qed
qed


lemma length_str_join:
  "\<forall>l\<in>set ls. length l = w \<Longrightarrow>
   length (str_join sep ls) = length ls * (w + length sep) - length sep"
  by (induction sep ls rule: str_join.induct) simp_all

lemma str_join_segment:
  "\<forall>l\<in>set ls. length l = w \<Longrightarrow> i < length ls \<Longrightarrow>
   take w (drop (i * (w + length sep)) (str_join sep ls)) = ls ! i"
proof (induction sep ls arbitrary: i rule: str_join.induct)
  case (1 sep)
  then show ?case by simp
next
  case (2 sep x)
  then show ?case by simp
next
  case (3 sep x y ys)
  show ?case
  proof (cases i)
    case 0
    with 3 show ?thesis by simp
  next
    case (Suc k)
    with 3 have "take w (drop (k * (w + length sep)) (str_join sep (y # ys))) = (y # ys) ! k"
      by simp
    moreover have "length x = w" using 3 by simp
    ultimately show ?thesis using Suc by simp
  qed
qed

lemma str_join_sep_nth:
  "\<forall>l\<in>set ls. length l = w \<Longrightarrow> Suc i < length ls \<Longrightarrow>
   str_join [c] ls ! (i * (w + 1) + w) = c"
proof (induction "[c]" ls arbitrary: i rule: str_join.induct)
  case 1
  then show ?case by simp
next
  case (2 x)
  then show ?case by simp
next
  case (3 x y ys)
  have x: "length x = w" using 3 by simp
  show ?case
  proof (cases i)
    case 0
    with x show ?thesis by (simp add: nth_append)
  next
    case (Suc k)
    with 3 have "str_join [c] (y # ys) ! (k * (w + 1) + w) = c"
      by simp
    with x Suc show ?thesis
      by (simp add: nth_append add.assoc)
  qed
qed

lemma split_on_not_Nil [simp]: "split_on sep cs \<noteq> []"
  by (induction cs) (auto split: list.splits)

lemma split_on_piece: "sep \<notin> set l \<Longrightarrow> split_on sep (l @ sep # r) = l # split_on sep r"
  by (induction l) (auto split: list.splits)

lemma split_on_single: "sep \<notin> set l \<Longrightarrow> split_on sep l = [l]"
  by (induction l) (auto split: list.splits)

lemma split_on_str_join:
  "ls \<noteq> [] \<Longrightarrow> \<forall>l\<in>set ls. sep \<notin> set l \<Longrightarrow> split_on sep (str_join [sep] ls) = ls"
proof (induction "[sep]" ls rule: str_join.induct)
  case 1
  then show ?case by simp
next
  case (2 x)
  then show ?case by (simp add: split_on_single)
next
  case (3 x y ys)
  then have "split_on sep (str_join [sep] (y # ys)) = y # ys" by simp
  moreover have "sep \<notin> set x" using 3 by simp
  ultimately show ?case
    using split_on_piece [of sep x "str_join [sep] (y # ys)"] by simp
qed

lemma format_text_nth:
  assumes g: "letter_grid creator a = Inr letters"
    and wf: "well_formed (crossword creator) letters"
    and i: "i < height (crossword creator)" and j: "j < width (crossword creator)"
  shows "\<exists>text. format_assignment creator a = Inr text \<and>
           text ! (i * (width (crossword creator) + 1) + j) =
             cell_char (crossword creator) letters i j"
proof -
  let ?cw = "crossword creator"
  let ?ls = "map (row_text ?cw letters) [0..<height ?cw]"
  from wf have r: "in_range ?cw letters" and s: "single_letters ?cw letters"
    by (simp_all add: well_formed_def)
  have len: "\<forall>l\<in>set ?ls. length l = width ?cw"
    using s by (auto simp: row_text_length)
  have "str_join ''\<newline>'' ?ls ! (i * (width ?cw + length ''\<newline>'') + j) = ?ls ! i ! j"
    using len i j by (intro str_join_nth) simp_all
  also have "?ls ! i ! j = cell_char ?cw letters i j"
    using i j s by (simp add: row_text_map)
  finally show ?thesis
    using format_ok [OF g r] by simp
qed

lemma row_text_no_line_break:
  assumes s: "single_letters cw letters" and n: "no_line_breaks cw letters"
    and i: "i < height cw"
  shows "CHR ''\<newline>'' \<notin> set (row_text cw letters i)"
proof -
  have ne: "cell_char cw letters i j \<noteq> CHR ''\<newline>''" if j: "j < width cw" for j
  proof (cases "structure_cw cw ! i ! j")
    case False
    then show ?thesis by (simp add: cell_char_def)
  next
    case True
    show ?thesis
    proof (cases "letters ! i ! j")
      case None
      with True show ?thesis by (simp add: cell_char_def)
    next
      case (Some t)
      from s i j True
      have "case letters ! i ! j of None \<Rightarrow> True | Some s \<Rightarrow> length s \<le> 1"
        by (simp add: single_letters_def)
      with Some have "length t \<le> 1" by simp
      moreover from n i j True Some have "t \<noteq> ''\<newline>''"
        by (auto simp: no_line_breaks_def)
      ultimately show ?thesis using True Some
        by (cases t) (auto simp: cell_char_def)
    qed
  qed
  show ?thesis
  proof
    assume "CHR ''\<newline>'' \<in> set (row_text cw letters i)"
    then have "CHR ''\<newline>'' \<in> cell_char cw letters i ` set [0..<width cw]"
      using s i by (simp only: row_text_map set_map)
    then obtain j where "j \<in> set [0..<width cw]"
      and "CHR ''\<newline>'' = cell_char cw letters i j"
      by (rule imageE)
    then show False using ne [of j] by simp
  qed
qed

lemma demo_letter_grid:
  "letter_grid demo_creator 0 = Inr [[Some ''a'', None], [None, Some ''b'']]"
  by (simp add: demo_creator_def)

lemma demo_well_formed:
  "well_formed (crossword demo_creator) [[Some ''a'', None], [None, Some ''b'']]"
  by (simp add: well_formed_def in_range_def single_letters_def cell_ok_def demo_creator_def
      demo_crossword_def numeral_2_eq_2 All_less_Suc)

lemma demo_format: "format_assignment demo_creator 0 = Inr ''a#\<newline> b''"
  by (simp add: format_assignment_def demo_creator_def demo_crossword_def getitem_def
      upt_rec numeral_2_eq_2)

lemma demo_dims [simp]:
  "height (crossword demo_creator) = 2" "width (crossword demo_creator) = 2"
  by (simp_all add: demo_creator_def demo_crossword_def)

text \<open>
  Claim C4. For a model whose grids cover its dimensions \<open>(h, w)\<close> and whose letters are
  single characters, and for every assignment, the formatted text has \<open>h * (w + 1) - 1\<close>
  characters: the \<open>w\<close> characters from position \<open>i * (w + 1)\<close> on are the cells of row \<open>i\<close>
  from left to right (row 0 first), and a line break stands between one row and the next.
  Unless a letter is itself a line break, splitting the text at the line breaks gives
  exactly \<open>h\<close> lines, each of length \<open>w\<close>: the rows in order.
\<close>

theorem format_assignment_lines:
  assumes "letter_grid creator a = Inr letters"
    and "well_formed (crossword creator) letters"
  shows "\<exists>text. format_assignment creator a = Inr text \<and>
           length text = height (crossword creator) * (width (crossword creator) + 1) - 1 \<and>
           (\<forall>i<height (crossword creator).
              take (width (crossword creator)) (drop (i * (width (crossword creator) + 1)) text) =
                map (cell_char (crossword creator) letters i) [0..<width (crossword creator)]) \<and>
           (\<forall>i. Suc i < height (crossword creator) \<longrightarrow>
              text ! (i * (width (crossword creator) + 1) + width (crossword creator)) =
                CHR ''\<newline>'') \<and>
           (0 < height (crossword creator) \<and> no_line_breaks (crossword creator) letters \<longrightarrow>
              split_on CHR ''\<newline>'' text =
                map (\<lambda>i. map (cell_char (crossword creator) letters i)
                             [0..<width (crossword creator)])
                  [0..<height (crossword creator)] \<and>
              length (split_on CHR ''\<newline>'' text) = height (crossword creator) \<and>
              (\<forall>l\<in>set (split_on CHR ''\<newline>'' text). length l = width (crossword creator)))"
proof -
  let ?cw = "crossword creator"
  let ?h = "height ?cw" and ?w = "width ?cw"
  let ?ls = "map (row_text ?cw letters) [0..<?h]"
  let ?text = "str_join ''\<newline>'' ?ls"
  from assms(2) have r: "in_range ?cw letters" and s: "single_letters ?cw letters"
    by (simp_all add: well_formed_def)
  have f: "format_assignment creator a = Inr ?text"
    using assms(1) r by (rule format_ok)
  have len: "\<forall>l\<in>set ?ls. length l = ?w"
    using s by (auto simp: row_text_length)
  have rows: "?ls = map (\<lambda>i. map (cell_char ?cw letters i) [0..<?w]) [0..<?h]"
    using s by (simp add: row_text_map)
  have a: "length ?text = ?h * (?w + 1) - 1"
    using length_str_join [OF len, of "''\<newline>''"] by simp
  have b: "\<forall>i<?h. take ?w (drop (i * (?w + 1)) ?text) = map (cell_char ?cw letters i) [0..<?w]"
  proof (intro allI impI)
    fix i assume i: "i < ?h"
    then have "take ?w (drop (i * (?w + length ''\<newline>'')) ?text) = ?ls ! i"
      using len by (intro str_join_segment) simp_all
    with i s show "take ?w (drop (i * (?w + 1)) ?text) = map (cell_char ?cw letters i) [0..<?w]"
      by (simp add: row_text_map)
  qed
  have c: "\<forall>i. Suc i < ?h \<longrightarrow> ?text ! (i * (?w + 1) + ?w) = CHR ''\<newline>''"
    using len by (intro allI impI str_join_sep_nth) simp_all
  have d: "split_on CHR ''\<newline>'' ?text = map (\<lambda>i. map (cell_char ?cw letters i) [0..<?w]) [0..<?h] \<and>
      length (split_on CHR ''\<newline>'' ?text) = ?h \<and>
      (\<forall>l\<in>set (split_on CHR ''\<newline>'' ?text). length l = ?w)"
    if h: "0 < ?h" and n: "no_line_breaks ?cw letters"
  proof -
    have "?ls \<noteq> []" using h by simp
    moreover have "\<forall>l\<in>set ?ls. CHR ''\<newline>'' \<notin> set l"
      using row_text_no_line_break [OF s n] by auto
    ultimately have sp: "split_on CHR ''\<newline>'' ?text = ?ls"
      by (rule split_on_str_join)
    show ?thesis
      unfolding sp using rows len by simp
  qed
  from d have d': "0 < ?h \<and> no_line_breaks ?cw letters \<longrightarrow>
      split_on CHR ''\<newline>'' ?text = map (\<lambda>i. map (cell_char ?cw letters i) [0..<?w]) [0..<?h] \<and>
      length (split_on CHR ''\<newline>'' ?text) = ?h \<and>
      (\<forall>l\<in>set (split_on CHR ''\<newline>'' ?text). length l = ?w)"
    by (intro impI) (elim conjE)
  show ?thesis
    by (rule exI [of _ ?text]) (intro conjI f a b c d')
qed

theorem format_assignment_lines_witness:
  "letter_grid demo_creator 0 = Inr [[Some ''a'', None], [None, Some ''b'']] \<and>
   well_formed (crossword demo_creator) [[Some ''a'', None], [None, Some ''b'']] \<and>
   no_line_breaks (crossword demo_creator) [[Some ''a'', None], [None, Some ''b'']] \<and>
   (\<exists>text. format_assignment demo_creator 0 = Inr text \<and> length text = 5 \<and>
      split_on CHR ''\<newline>'' text = [''a#'', '' b''])"
proof -
  have n: "no_line_breaks (crossword demo_creator) [[Some ''a'', None], [None, Some ''b'']]"
    by (simp add: no_line_breaks_def demo_creator_def demo_crossword_def numeral_2_eq_2
        All_less_Suc)
  have "map (\<lambda>i. map (cell_char (crossword demo_creator) [[Some ''a'', None], [None, Some ''b'']] i)
      [0..<width (crossword demo_creator)]) [0..<height (crossword demo_creator)] = [''a#'', '' b'']"
    by (simp add: cell_char_def demo_creator_def demo_crossword_def upt_rec numeral_2_eq_2)
  with format_assignment_lines [OF demo_letter_grid demo_well_formed] n
    demo_letter_grid demo_well_formed
  show ?thesis by auto
qed

text \<open>
  Claim C5. In the formatted text, cell \<open>(i, j)\<close> stands at position \<open>i * (w + 1) + j\<close>.
  There stands the blocking character if the cell is blocked, whatever the assignment;
  the blank placeholder if the cell is open and has no letter; and the letter if the cell
  is open and has one.
\<close>

theorem format_assignment_cell:
  assumes "letter_grid creator a = Inr letters"
    and "well_formed (crossword creator) letters"
    and "i < height (crossword creator)" and "j < width (crossword creator)"
  shows "\<exists>text. format_assignment creator a = Inr text \<and>
           (\<not> structure_cw (crossword creator) ! i ! j \<longrightarrow>
              text ! (i * (width (crossword creator) + 1) + j) = CHR ''#'') \<and>
           (structure_cw (crossword creator) ! i ! j \<and> letters ! i ! j = None \<longrightarrow>
              text ! (i * (width (crossword creator) + 1) + j) = CHR '' '') \<and>
           (\<forall>c. structure_cw (crossword creator) ! i ! j \<and> letters ! i ! j = Some [c] \<longrightarrow>
              text ! (i * (width (crossword creator) + 1) + j) = c)"
  using format_text_nth [OF assms] by (auto simp: cell_char_def)

theorem format_assignment_cell_witness:
  "letter_grid demo_creator 0 = Inr [[Some ''a'', None], [None, Some ''b'']] \<and>
   well_formed (crossword demo_creator) [[Some ''a'', None], [None, Some ''b'']] \<and>
   (\<exists>text. format_assignment demo_creator 0 = Inr text \<and>
      text ! 1 = CHR ''#'' \<and> text ! 3 = CHR '' '' \<and> text ! 4 = CHR ''b'')"
proof -
  note g = demo_letter_grid and wf = demo_well_formed
  have h: "(0::nat) < height (crossword demo_creator)" "(1::nat) < height (crossword demo_creator)"
    "(0::nat) < width (crossword demo_creator)" "(1::nat) < width (crossword demo_creator)"
    by simp_all
  from format_assignment_cell [OF g wf h(1) h(4)] format_assignment_cell [OF g wf h(2) h(3)]
    format_assignment_cell [OF g wf h(2) h(4)] g wf
  show ?thesis
    by (auto simp: demo_creator_def demo_crossword_def)
qed

text \<open>
  Claim C9. The blocking character is \<open>#\<close>. The blank placeholder is a single space, and
  it stands for an open cell whose letter is \<^verbatim>\<open>None\<close> or falsy (the empty string).
\<close>

theorem blocking_and_blank_characters:
  assumes "letter_grid creator a = Inr letters"
    and "well_formed (crossword creator) letters"
    and "i < height (crossword creator)" and "j < width (crossword creator)"
  shows "\<exists>text. format_assignment creator a = Inr text \<and>
           (\<not> structure_cw (crossword creator) ! i ! j \<longrightarrow>
              text ! (i * (width (crossword creator) + 1) + j) = CHR ''#'') \<and>
           (structure_cw (crossword creator) ! i ! j \<and>
            (letters ! i ! j = None \<or> letters ! i ! j = Some []) \<longrightarrow>
              text ! (i * (width (crossword creator) + 1) + j) = CHR '' '')"
  using format_text_nth [OF assms] by (auto simp: cell_char_def)

theorem blocking_and_blank_characters_witness:
  "letter_grid demo_creator 0 = Inr [[Some ''a'', None], [None, Some ''b'']] \<and>
   well_formed (crossword demo_creator) [[Some ''a'', None], [None, Some ''b'']] \<and>
   (\<exists>text. format_assignment demo_creator 0 = Inr text \<and>
      text ! 1 = CHR ''#'' \<and> text ! 3 = CHR '' '')"
proof -
  note g = demo_letter_grid and wf = demo_well_formed
  have h: "(0::nat) < height (crossword demo_creator)" "(1::nat) < height (crossword demo_creator)"
    "(0::nat) < width (crossword demo_creator)" "(1::nat) < width (crossword demo_creator)"
    by simp_all
  from blocking_and_blank_characters [OF g wf h(1) h(4)]
    blocking_and_blank_characters [OF g wf h(2) h(3)] g wf
  show ?thesis
    by (auto simp: demo_creator_def demo_crossword_def)
qed

section \<open>Properties of the worker\<close>

lemmas post_defs = after_def set_output_def clear_output_def notify_info_def notify_error_def
  set_status_def enable_button_def

lemma try_solve_queue [simp]: "try_solve env (s\<lparr>after_queue := q\<rparr>) = try_solve env s"
  by (simp add: try_solve_def)

lemma save_image_queue:
  "save_image creator a (s\<lparr>after_queue := q\<rparr>) = s\<lparr>after_queue := q @ save_posts creator a s\<rparr>"
  by (simp add: save_image_def save_posts_def post_defs split: option.splits py_exception.splits)

lemma save_posts_notices:
  "cb \<in> set (save_posts creator a s) \<Longrightarrow> \<not> publishes_status cb \<and> cb \<noteq> ButtonNormal"
  by (auto simp: save_image_def save_posts_def post_defs
      split: option.splits py_exception.splits if_splits)

lemma error_path:
  "try_solve env s = Inl exc \<Longrightarrow>
   solve_in_thread env s =
     (s\<lparr>after_queue := after_queue s @
         [ShowError (''Error while solving: '' @ str_exc exc), StatusVarSet ''Error'',
          ButtonNormal]\<rparr>, None)"
  by (simp add: solve_in_thread_def post_defs)

lemma no_solution_path:
  "try_solve env s = Inr (creator, None) \<Longrightarrow>
   solve_in_thread env s =
     (s\<lparr>after_queue := after_queue s @
         [StatusVarSet ''No solution found'',
          ShowInfo ''No solution could be generated for the chosen files.'',
          WriteOutput [], ButtonNormal]\<rparr>, None)"
  by (simp add: solve_in_thread_def post_defs)

lemma escape_path:
  "try_solve env s = Inr (creator, Some a) \<Longrightarrow> format_assignment creator a = Inl exc \<Longrightarrow>
   solve_in_thread env s = (s, Some exc)"
  by (simp add: solve_in_thread_def)

lemma solved_path:
  "try_solve env s = Inr (creator, Some a) \<Longrightarrow> format_assignment creator a = Inr grid_text \<Longrightarrow>
   solve_in_thread env s =
     (s\<lparr>after_queue := after_queue s @
         [WriteOutput grid_text, StatusVarSet ''Solved''] @ save_posts creator a s @
         [ButtonNormal]\<rparr>, None)"
  using save_image_queue [where s = s and creator = creator and a = a
      and q = "after_queue s @ [WriteOutput grid_text, StatusVarSet ''Solved'']"]
  by (simp add: solve_in_thread_def post_defs)

lemma save_posts_queue [simp]: "save_posts creator a (s\<lparr>after_queue := q\<rparr>) = save_posts creator a s"
  by (simp add: save_posts_def)

lemma solve_in_thread_frame:
  "fst (solve_in_thread env s) = s\<lparr>after_queue := after_queue s @ worker_posts env s\<rparr>"
proof (cases "try_solve env s")
  case (Inl exc)
  then show ?thesis
    by (simp add: worker_posts_def error_path)
next
  case (Inr r)
  obtain creator res where r: "r = (creator, res)" by (cases r)
  show ?thesis
  proof (cases res)
    case None
    with Inr r show ?thesis
      by (simp add: worker_posts_def no_solution_path)
  next
    case (Some a)
    show ?thesis
    proof (cases "format_assignment creator a")
      case (Inl exc)
      with Inr r Some show ?thesis
        by (simp add: worker_posts_def escape_path)
    next
      case (Inr grid_text)
      with \<open>try_solve env s = Inr r\<close> r Some show ?thesis
        by (simp add: worker_posts_def solved_path)
    qed
  qed
qed


lemma worker_posts_error:
  "try_solve env s = Inl exc \<Longrightarrow>
   worker_posts env s =
     [ShowError (''Error while solving: '' @ str_exc exc), StatusVarSet ''Error'', ButtonNormal]"
  by (simp add: worker_posts_def error_path)

lemma worker_posts_no_solution:
  "try_solve env s = Inr (creator, None) \<Longrightarrow>
   worker_posts env s =
     [StatusVarSet ''No solution found'',
      ShowInfo ''No solution could be generated for the chosen files.'',
      WriteOutput [], ButtonNormal]"
  by (simp add: worker_posts_def no_solution_path)

lemma worker_posts_solved:
  "try_solve env s = Inr (creator, Some a) \<Longrightarrow> format_assignment creator a = Inr grid_text \<Longrightarrow>
   worker_posts env s =
     [WriteOutput grid_text, StatusVarSet ''Solved''] @ save_posts creator a s @ [ButtonNormal]"
  by (simp add: worker_posts_def solved_path)

lemma worker_posts_escape:
  "try_solve env s = Inr (creator, Some a) \<Longrightarrow> format_assignment creator a = Inl exc \<Longrightarrow>
   worker_posts env s = []"
  by (simp add: worker_posts_def escape_path)

lemma save_posts_filter:
  "filter publishes_status (save_posts creator a s) = []"
  "filter publishes_terminal (save_posts creator a s) = []"
  "filter (\<lambda>cb. cb = ButtonNormal) (save_posts creator a s) = []"
proof -
  have n: "\<And>cb. cb \<in> set (save_posts creator a s) \<Longrightarrow> \<not> publishes_status cb \<and> cb \<noteq> ButtonNormal"
    by (rule save_posts_notices)
  show "filter publishes_status (save_posts creator a s) = []"
    using n by (simp add: filter_empty_conv)
  have "\<not> publishes_terminal cb" if "cb \<in> set (save_posts creator a s)" for cb
    using n [OF that] by (cases cb) simp_all
  then show "filter publishes_terminal (save_posts creator a s) = []"
    by (simp add: filter_empty_conv)
  show "filter (\<lambda>cb. cb = ButtonNormal) (save_posts creator a s) = []"
    using n by (simp add: filter_empty_conv)
qed

lemma terminal_texts [simp]:
  "terminal ''Solved''" "terminal ''No solution found''" "terminal ''Error''"
  "\<not> terminal ''Solving...''" "\<not> terminal ''Idle''"
  by (simp_all add: terminal_def state_of_def)

text \<open>
  Rendering is the one step of the worker outside its \<^verbatim>\<open>try\<close> blocks: when it raises, the
  exception ends the thread with nothing scheduled.
\<close>

lemma worker_escape:
  assumes "\<not> renderable env s"
  shows "snd (solve_in_thread env s) \<noteq> None \<and> worker_posts env s = []"
proof -
  from assms obtain creator a where t: "try_solve env s = Inr (creator, Some a)"
    and n: "\<not> renders creator a"
    by (auto simp: renderable_def split: sum.splits option.splits)
  from n have "\<not> (\<exists>text. format_assignment creator a = Inr text)"
    by (simp only: format_Inr_iff not_False_eq_True)
  then obtain exc where f: "format_assignment creator a = Inl exc"
    by (cases "format_assignment creator a") auto
  show ?thesis
    by (simp add: escape_path [OF t f] worker_posts_escape [OF t f])
qed

text \<open>
  When rendering raises nothing, the worker lets no exception out, publishes exactly one
  status, a terminal one, and schedules the re-enabling of the button once, last.
\<close>

lemma worker_publishes_once:
  assumes "renderable env s"
  shows "snd (solve_in_thread env s) = None \<and>
         length (filter publishes_status (worker_posts env s)) = 1 \<and>
         length (filter publishes_terminal (worker_posts env s)) = 1 \<and>
         length (filter (\<lambda>cb. cb = ButtonNormal) (worker_posts env s)) = 1 \<and>
         last (worker_posts env s) = ButtonNormal"
proof (cases "try_solve env s")
  case (Inl exc)
  then show ?thesis
    by (simp add: worker_posts_error error_path)
next
  case (Inr r)
  obtain creator res where r: "r = (creator, res)" by (cases r)
  show ?thesis
  proof (cases res)
    case None
    with Inr r show ?thesis
      by (simp add: worker_posts_no_solution no_solution_path)
  next
    case (Some a)
    with assms Inr r have "renders creator a"
      by (simp add: renderable_def)
    then have "\<exists>t. format_assignment creator a = Inr t"
      by (simp only: format_Inr_iff)
    then obtain grid_text where g: "format_assignment creator a = Inr grid_text" ..
    from Inr r Some have t: "try_solve env s = Inr (creator, Some a)" by simp
    show ?thesis
      by (simp add: worker_posts_solved [OF t g] solved_path [OF t g] save_posts_filter)
  qed
qed

lemma demo_try_solve: "try_solve demo_env demo_app = Inr (demo_creator, Some 0)"
  by (simp add: try_solve_def demo_env_def demo_creator_def)

lemma demo_save_posts: "save_posts demo_creator 0 demo_app = [ShowError pillow_message]"
  by (simp add: save_posts_def save_image_def demo_app_def init_def demo_creator_def post_defs)

lemma demo_renderable: "renderable demo_env demo_app"
  using demo_well_formed
  by (simp add: renderable_def demo_try_solve renders_def demo_letter_grid well_formed_def)

lemma demo_unrenderable_try_solve:
  "try_solve demo_unrenderable_env s =
     Inr (demo_creator\<lparr>letter_grid := (\<lambda>a. Inl (IndexError ''list assignment index out of range''))\<rparr>,
          Some 0)"
  by (simp add: try_solve_def demo_unrenderable_env_def demo_creator_def)

lemma demo_short_grid_try_solve:
  "try_solve demo_short_grid_env s =
     Inr (demo_creator\<lparr>letter_grid := (\<lambda>a. Inr [[Some ''a'', None]])\<rparr>, Some 0)"
  by (simp add: try_solve_def demo_short_grid_env_def demo_creator_def)

text \<open>
  Claim C2 fails on the code. The worker renders the solved grid (\<^verbatim>\<open>_format_assignment\<close>,
  which calls \<^verbatim>\<open>creator.letter_grid\<close>) outside both \<^verbatim>\<open>try\<close> blocks. When \<^verbatim>\<open>letter_grid\<close>
  raises, or returns a grid that lacks a row the loop reads, the exception leaves the worker,
  which has scheduled nothing: no terminal status is published and the button is never
  re-enabled. After one click and any number of event-loop turns and worker steps the
  status is Solving, the button disabled and nothing is pending.
\<close>

theorem worker_escape_at_failing_input:
  "solve_in_thread demo_unrenderable_env demo_app =
     (demo_app, Some (IndexError ''list assignment index out of range'')) \<and>
   solve_in_thread demo_short_grid_env demo_app =
     (demo_app, Some (IndexError ''list index out of range'')) \<and>
   worker_posts demo_unrenderable_env demo_app = [] \<and>
   run [Click demo_unrenderable_env, Mainloop, Worker 0, Mainloop]
       (startup DEFAULT_STRUCTURE DEFAULT_WORDS []) =
     \<lparr> gui = init\<lparr>status_var := ''Solving...'', solve_button := DISABLED\<rparr>, threads = [[]] \<rparr>"
proof -
  have f1: "format_assignment
      (demo_creator\<lparr>letter_grid := (\<lambda>a. Inl (IndexError ''list assignment index out of range''))\<rparr>) 0 =
      Inl (IndexError ''list assignment index out of range'')"
    by (simp add: format_assignment_def)
  have f2: "format_assignment (demo_creator\<lparr>letter_grid := (\<lambda>a. Inr [[Some ''a'', None]])\<rparr>) 0 =
      Inl (IndexError ''list index out of range'')"
    by (simp add: format_assignment_def demo_creator_def demo_crossword_def getitem_def
        upt_rec numeral_2_eq_2)
  have p: "worker_posts demo_unrenderable_env s = []" for s
    by (rule worker_posts_escape [OF demo_unrenderable_try_solve f1])
  show ?thesis
    by (simp add: escape_path [OF demo_unrenderable_try_solve f1]
        escape_path [OF demo_short_grid_try_solve f2] p run_def startup_def init_def
        app_solve_def post_defs mainloop_once_def Let_def)
qed

lemma write_output_fields [simp]:
  "output_text (write_output text s) = text"
  "output_state (write_output text s) = DISABLED"
  "status_var (write_output text s) = status_var s"
  "solve_button (write_output text s) = solve_button s"
  "dialogs (write_output text s) = dialogs s"
  "after_queue (write_output text s) = after_queue s"
  by (simp_all add: write_output_def output_delete_all_def output_insert_end_def)

lemma run_callbacks_simps [simp]:
  "run_callbacks [] s = s"
  "run_callbacks (cb # cbs) s = run_callbacks cbs (run_callback cb s)"
  by (simp_all add: run_callbacks_def)

lemma save_posts_failure:
  "output_path s \<noteq> [] \<Longrightarrow> save creator a (output_path s) = Some exc \<Longrightarrow>
   save_posts creator a s =
     [ShowError (case exc of ImportError m \<Rightarrow> pillow_message
                 | IndexError m \<Rightarrow> ''Could not save image: '' @ str_exc exc
                 | OtherException m \<Rightarrow> ''Could not save image: '' @ str_exc exc)]"
  by (simp add: save_posts_def save_image_def post_defs split: py_exception.splits)

text \<open>
  Claim C3. When solving succeeded, an output path is set and saving raises, the worker
  has scheduled the grid text and the status Solved before, and adds one error message box
  and the re-enabling of the button: once all callbacks have run, the status is still
  Solved and the output still the grid text. The message for a missing image library
  (\<^verbatim>\<open>ImportError\<close>) differs from every message of the general clause.
\<close>

theorem save_failure_is_additive:
  assumes "try_solve env s = Inr (creator, Some a)"
    and "format_assignment creator a = Inr grid_text"
    and "output_path s \<noteq> []"
    and "save creator a (output_path s) = Some exc"
  shows "\<exists>message.
           worker_posts env s =
             [WriteOutput grid_text, StatusVarSet ''Solved'', ShowError message, ButtonNormal] \<and>
           message =
             (case exc of ImportError m \<Rightarrow> pillow_message
              | IndexError m \<Rightarrow> ''Could not save image: '' @ str_exc exc
              | OtherException m \<Rightarrow> ''Could not save image: '' @ str_exc exc) \<and>
           (\<forall>e. pillow_message \<noteq> ''Could not save image: '' @ str_exc e) \<and>
           status_var (run_callbacks [WriteOutput grid_text, StatusVarSet ''Solved''] u) = ''Solved'' \<and>
           output_text (run_callbacks [WriteOutput grid_text, StatusVarSet ''Solved''] u) = grid_text \<and>
           status_var (run_callbacks (worker_posts env s) u) = ''Solved'' \<and>
           output_text (run_callbacks (worker_posts env s) u) = grid_text \<and>
           dialogs (run_callbacks (worker_posts env s) u) =
             dialogs u @ [ErrorBox ''Crossword Solver'' message]"
proof -
  have "\<forall>e. pillow_message \<noteq> ''Could not save image: '' @ str_exc e"
    by (simp add: pillow_message_def)
  then show ?thesis
    by (simp add: worker_posts_solved [OF assms(1,2)] save_posts_failure [OF assms(3,4)])
qed

lemma demo_output_path: "output_path demo_app \<noteq> []"
  by (simp add: demo_app_def)

lemma demo_save: "save demo_creator 0 (output_path demo_app) = Some (ImportError ''No module named PIL'')"
  by (simp add: demo_creator_def)

theorem save_failure_is_additive_witness:
  "try_solve demo_env demo_app = Inr (demo_creator, Some 0) \<and>
   format_assignment demo_creator 0 = Inr ''a#\<newline> b'' \<and>
   output_path demo_app \<noteq> [] \<and>
   save demo_creator 0 (output_path demo_app) = Some (ImportError ''No module named PIL'') \<and>
   worker_posts demo_env demo_app =
     [WriteOutput ''a#\<newline> b'', StatusVarSet ''Solved'', ShowError pillow_message, ButtonNormal] \<and>
   output_text (run_callbacks (worker_posts demo_env demo_app) init) = ''a#\<newline> b''"
  using save_failure_is_additive [OF demo_try_solve demo_format demo_output_path demo_save, of init]
    demo_try_solve demo_format demo_output_path demo_save
  by auto

text \<open>
  Claim C6. When \<^verbatim>\<open>solve()\<close> returns no assignment, the worker publishes the status of
  NoSolution, shows an information box (not an error box), clears the output and re-enables
  the button.
\<close>

theorem no_solution_outcome:
  assumes "try_solve env s = Inr (creator, None)"
  shows "solve_in_thread env s =
           (s\<lparr>after_queue := after_queue s @
              [StatusVarSet ''No solution found'',
               ShowInfo ''No solution could be generated for the chosen files.'',
               WriteOutput [], ButtonNormal]\<rparr>, None) \<and>
         state_of ''No solution found'' = Some NoSolution \<and>
         status_var (run_callbacks (worker_posts env s) u) = ''No solution found'' \<and>
         output_text (run_callbacks (worker_posts env s) u) = [] \<and>
         dialogs (run_callbacks (worker_posts env s) u) =
           dialogs u @
             [InfoBox ''Crossword Solver'' ''No solution could be generated for the chosen files.''] \<and>
         solve_button (run_callbacks (worker_posts env s) u) = NORMAL"
  by (simp add: worker_posts_no_solution [OF assms] no_solution_path [OF assms] state_of_def)

text \<open>
  Claim C10. On the Error path the worker schedules an error box, the status Error and the
  re-enabling of the button, and nothing else: the output widget keeps the text it had. On
  the NoSolution path the output is cleared.
\<close>

theorem error_keeps_output:
  "(try_solve env s = Inl exc \<longrightarrow>
      worker_posts env s =
        [ShowError (''Error while solving: '' @ str_exc exc), StatusVarSet ''Error'',
         ButtonNormal] \<and>
      output_text (run_callbacks (worker_posts env s) u) = output_text u \<and>
      output_state (run_callbacks (worker_posts env s) u) = output_state u \<and>
      status_var (run_callbacks (worker_posts env s) u) = ''Error'' \<and>
      dialogs (run_callbacks (worker_posts env s) u) =
        dialogs u @ [ErrorBox ''Crossword Solver'' (''Error while solving: '' @ str_exc exc)] \<and>
      solve_button (run_callbacks (worker_posts env s) u) = NORMAL) \<and>
   (try_solve env s = Inr (creator, None) \<longrightarrow>
      output_text (run_callbacks (worker_posts env s) u) = [])"
  by (simp add: worker_posts_error worker_posts_no_solution)

lemma run_callback_queue:
  "run_callback cb (s\<lparr>after_queue := q\<rparr>) = (run_callback cb s)\<lparr>after_queue := q\<rparr>"
  by (cases cb) (simp_all add: write_output_def output_delete_all_def output_insert_end_def)

lemma mainloop_drains:
  "(mainloop_once ^^ length q) (s\<lparr>after_queue := q\<rparr>) = run_callbacks q (s\<lparr>after_queue := []\<rparr>)"
proof (induction q arbitrary: s)
  case Nil
  then show ?case by simp
next
  case (Cons cb q)
  have "mainloop_once (s\<lparr>after_queue := cb # q\<rparr>) = (run_callback cb s)\<lparr>after_queue := q\<rparr>"
    by (simp add: mainloop_once_def run_callback_queue)
  then show ?case
    using Cons [of "run_callback cb s"]
    by (simp add: funpow_swap1 run_callback_queue)
qed

lemma funpow_mainloop_append:
  "(mainloop_once ^^ length (q @ cbs)) (s\<lparr>after_queue := q @ cbs\<rparr>) =
     run_callbacks cbs (run_callbacks q (s\<lparr>after_queue := []\<rparr>))"
  by (simp only: mainloop_drains) (simp add: run_callbacks_def)

lemma save_posts_explicit:
  "save_posts creator a s =
     (if output_path s = [] then []
      else (case save creator a (output_path s) of
              None \<Rightarrow> [ShowInfo (''Image saved to '' @ output_path s)]
            | Some (ImportError m) \<Rightarrow> [ShowError pillow_message]
            | Some (IndexError m) \<Rightarrow> [ShowError (''Could not save image: '' @ m)]
            | Some (OtherException m) \<Rightarrow> [ShowError (''Could not save image: '' @ m)]))"
  by (simp add: save_posts_def save_image_def post_defs split: option.splits py_exception.splits)

lemma solve_in_thread_explicit:
  "fst (solve_in_thread env s) =
     s\<lparr>after_queue := after_queue s @
        (case try_solve env s of
           Inl exc \<Rightarrow>
             [ShowError (''Error while solving: '' @ str_exc exc), StatusVarSet ''Error'',
              ButtonNormal]
         | Inr (creator, None) \<Rightarrow>
             [StatusVarSet ''No solution found'',
              ShowInfo ''No solution could be generated for the chosen files.'',
              WriteOutput [], ButtonNormal]
         | Inr (creator, Some a) \<Rightarrow>
             (case format_assignment creator a of
                Inl exc \<Rightarrow> []
              | Inr grid_text \<Rightarrow>
                  [WriteOutput grid_text, StatusVarSet ''Solved''] @
                  (if output_path s = [] then []
                   else (case save creator a (output_path s) of
                           None \<Rightarrow> [ShowInfo (''Image saved to '' @ output_path s)]
                         | Some (ImportError m) \<Rightarrow> [ShowError pillow_message]
                         | Some (IndexError m) \<Rightarrow> [ShowError (''Could not save image: '' @ m)]
                         | Some (OtherException m) \<Rightarrow>
                             [ShowError (''Could not save image: '' @ m)])) @
                  [ButtonNormal]))\<rparr>"
proof (cases "try_solve env s")
  case (Inl exc)
  then show ?thesis by (simp add: error_path)
next
  case (Inr r)
  obtain creator res where r: "r = (creator, res)" by (cases r)
  show ?thesis
  proof (cases res)
    case None
    with Inr r show ?thesis by (simp add: no_solution_path)
  next
    case (Some a)
    with Inr r have t: "try_solve env s = Inr (creator, Some a)" by simp
    show ?thesis
    proof (cases "format_assignment creator a")
      case (Inl exc)
      then show ?thesis by (simp add: t escape_path [OF t])
    next
      case (Inr grid_text)
      then show ?thesis
        by (simp add: t solved_path [OF t Inr] save_posts_explicit)
    qed
  qed
qed

text \<open>
  Claim C8. The worker writes no field of the application object but the queue of scheduled
  callbacks: after it, the object is the one before with the worker's callbacks appended to
  the queue, in the order of the calls in the source, behind those already scheduled. Each
  helper schedules exactly its callback. The effect happens when the event loop runs the
  callback: it takes the oldest callback off the queue (Tk's queue of \<^verbatim>\<open>after(0, ...)\<close>
  callbacks is first in, first out) and the callback sets the status text, rewrites the
  output, shows the message box or sets the button back to normal. So the callbacks
  scheduled before run first, and the worker's run in the order it issued them.
\<close>

theorem worker_effects_are_posted:
  "fst (solve_in_thread env s) =
     s\<lparr>after_queue := after_queue s @
        (case try_solve env s of
           Inl exc \<Rightarrow>
             [ShowError (''Error while solving: '' @ str_exc exc), StatusVarSet ''Error'',
              ButtonNormal]
         | Inr (creator, None) \<Rightarrow>
             [StatusVarSet ''No solution found'',
              ShowInfo ''No solution could be generated for the chosen files.'',
              WriteOutput [], ButtonNormal]
         | Inr (creator, Some a) \<Rightarrow>
             (case format_assignment creator a of
                Inl exc \<Rightarrow> []
              | Inr grid_text \<Rightarrow>
                  [WriteOutput grid_text, StatusVarSet ''Solved''] @
                  (if output_path s = [] then []
                   else (case save creator a (output_path s) of
                           None \<Rightarrow> [ShowInfo (''Image saved to '' @ output_path s)]
                         | Some (ImportError m) \<Rightarrow> [ShowError pillow_message]
                         | Some (IndexError m) \<Rightarrow> [ShowError (''Could not save image: '' @ m)]
                         | Some (OtherException m) \<Rightarrow>
                             [ShowError (''Could not save image: '' @ m)])) @
                  [ButtonNormal]))\<rparr> \<and>
   set_status text s = s\<lparr>after_queue := after_queue s @ [StatusVarSet text]\<rparr> \<and>
   set_output text s = s\<lparr>after_queue := after_queue s @ [WriteOutput text]\<rparr> \<and>
   clear_output s = s\<lparr>after_queue := after_queue s @ [WriteOutput []]\<rparr> \<and>
   notify_info text s = s\<lparr>after_queue := after_queue s @ [ShowInfo text]\<rparr> \<and>
   notify_error text s = s\<lparr>after_queue := after_queue s @ [ShowError text]\<rparr> \<and>
   enable_button s = s\<lparr>after_queue := after_queue s @ [ButtonNormal]\<rparr> \<and>
   mainloop_once (s\<lparr>after_queue := cb # q\<rparr>) = (run_callback cb s)\<lparr>after_queue := q\<rparr> \<and>
   status_var (run_callback (StatusVarSet text) s) = text \<and>
   output_text (run_callback (WriteOutput text) s) = text \<and>
   dialogs (run_callback (ShowInfo text) s) = dialogs s @ [InfoBox ''Crossword Solver'' text] \<and>
   dialogs (run_callback (ShowError text) s) = dialogs s @ [ErrorBox ''Crossword Solver'' text] \<and>
   solve_button (run_callback ButtonNormal s) = NORMAL \<and>
   run_callbacks [] s = s \<and>
   run_callbacks (cb # cbs) s = run_callbacks cbs (run_callback cb s) \<and>
   (mainloop_once ^^ length (q @ cbs)) (s\<lparr>after_queue := q @ cbs\<rparr>) =
     run_callbacks cbs (run_callbacks q (s\<lparr>after_queue := []\<rparr>))"
proof -
  have m: "mainloop_once (s\<lparr>after_queue := cb # q\<rparr>) = (run_callback cb s)\<lparr>after_queue := q\<rparr>"
    by (simp add: mainloop_once_def run_callback_queue)
  have h: "set_status text s = s\<lparr>after_queue := after_queue s @ [StatusVarSet text]\<rparr>"
    "set_output text s = s\<lparr>after_queue := after_queue s @ [WriteOutput text]\<rparr>"
    "clear_output s = s\<lparr>after_queue := after_queue s @ [WriteOutput []]\<rparr>"
    "notify_info text s = s\<lparr>after_queue := after_queue s @ [ShowInfo text]\<rparr>"
    "notify_error text s = s\<lparr>after_queue := after_queue s @ [ShowError text]\<rparr>"
    "enable_button s = s\<lparr>after_queue := after_queue s @ [ButtonNormal]\<rparr>"
    by (simp_all add: post_defs)
  have e: "status_var (run_callback (StatusVarSet text) s) = text"
    "output_text (run_callback (WriteOutput text) s) = text"
    "dialogs (run_callback (ShowInfo text) s) = dialogs s @ [InfoBox ''Crossword Solver'' text]"
    "dialogs (run_callback (ShowError text) s) = dialogs s @ [ErrorBox ''Crossword Solver'' text]"
    "solve_button (run_callback ButtonNormal s) = NORMAL"
    "run_callbacks [] s = s"
    "run_callbacks (cb # cbs) s = run_callbacks cbs (run_callback cb s)"
    by simp_all
  show ?thesis
    by (intro conjI solve_in_thread_explicit h m e funpow_mainloop_append)
qed

lemma demo_no_solution:
  "try_solve demo_no_solution_env demo_app = Inr (demo_creator\<lparr>solve := Inr None\<rparr>, None)"
  by (simp add: try_solve_def demo_no_solution_env_def)

lemma demo_error:
  "try_solve demo_error_env demo_app =
     Inl (OtherException ''No such file or directory: data/structure0.txt'')"
  by (simp add: try_solve_def demo_error_env_def demo_app_def init_def DEFAULT_STRUCTURE_def)

theorem no_solution_outcome_witness:
  "try_solve demo_no_solution_env demo_app = Inr (demo_creator\<lparr>solve := Inr None\<rparr>, None) \<and>
   status_var (run_callbacks (worker_posts demo_no_solution_env demo_app)
     (init\<lparr>output_text := ''old''\<rparr>)) = ''No solution found'' \<and>
   output_text (run_callbacks (worker_posts demo_no_solution_env demo_app)
     (init\<lparr>output_text := ''old''\<rparr>)) = []"
  using no_solution_outcome [OF demo_no_solution, of "init\<lparr>output_text := ''old''\<rparr>"]
    demo_no_solution
  by simp

theorem error_keeps_output_witness:
  "try_solve demo_error_env demo_app =
     Inl (OtherException ''No such file or directory: data/structure0.txt'') \<and>
   output_text (run_callbacks (worker_posts demo_error_env demo_app)
     (init\<lparr>output_text := ''old''\<rparr>)) = ''old'' \<and>
   try_solve demo_no_solution_env demo_app = Inr (demo_creator\<lparr>solve := Inr None\<rparr>, None) \<and>
   output_text (run_callbacks (worker_posts demo_no_solution_env demo_app)
     (init\<lparr>output_text := ''old''\<rparr>)) = []"
  using error_keeps_output [of demo_error_env demo_app
      "OtherException ''No such file or directory: data/structure0.txt''"
      "init\<lparr>output_text := ''old''\<rparr>" demo_creator]
    error_keeps_output [of demo_no_solution_env demo_app "OtherException []"
      "init\<lparr>output_text := ''old''\<rparr>" "demo_creator\<lparr>solve := Inr None\<rparr>"]
    demo_error demo_no_solution
  by simp

section \<open>Properties of the process\<close>

lemma state_of_texts [simp]:
  "state_of ''Idle'' = Some Idle"
  "state_of ''Solving...'' = Some Solving"
  "state_of ''Solved'' = Some Solved"
  "state_of ''No solution found'' = Some NoSolution"
  "state_of ''Error'' = Some Error"
  by (simp_all add: state_of_def)

lemma chain_ok_notices:
  "\<forall>cb\<in>set n. \<not> publishes_status cb \<and> cb \<noteq> ButtonNormal \<Longrightarrow>
   chain_ok cur (n @ cbs) = chain_ok cur cbs"
proof (induction n)
  case Nil
  then show ?case by simp
next
  case (Cons cb n)
  then show ?case by (cases cb) simp_all
qed

lemma worker_chain: "chain_ok ''Solving...'' (worker_posts env s)"
proof (cases "try_solve env s")
  case (Inl exc)
  then show ?thesis
    by (simp add: worker_posts_error allowed_def)
next
  case (Inr r)
  obtain creator res where r: "r = (creator, res)" by (cases r)
  show ?thesis
  proof (cases res)
    case None
    with Inr r show ?thesis
      by (simp add: worker_posts_no_solution allowed_def)
  next
    case (Some a)
    with Inr r have t: "try_solve env s = Inr (creator, Some a)" by simp
    show ?thesis
    proof (cases "format_assignment creator a")
      case (Inl exc)
      then show ?thesis by (simp add: worker_posts_escape [OF t])
    next
      case (Inr grid_text)
      have "chain_ok ''Solved'' (save_posts creator a s @ [ButtonNormal]) = chain_ok ''Solved'' [ButtonNormal]"
        by (rule chain_ok_notices) (simp add: save_posts_notices)
      then show ?thesis
        by (simp add: worker_posts_solved [OF t Inr] allowed_def)
    qed
  qed
qed

lemma invariant_startup: "invariant (startup sp wp op)"
  by (simp add: invariant_def startup_def init_def pipeline_def)

lemma concat_all_Nil: "\<forall>t\<in>set xs. t = [] \<Longrightarrow> concat xs = []"
  by simp

lemma invariant_click:
  assumes "invariant p"
  shows "invariant (step (Click env) p)"
proof (cases "solve_button (gui p) = NORMAL")
  case False
  with assms show ?thesis by simp
next
  case True
  with assms have q: "after_queue (gui p) = []" and c: "concat (threads p) = []"
    and st: "state_of (status_var (gui p)) \<noteq> None"
      "state_of (status_var (gui p)) \<noteq> Some Solving"
    by (simp_all add: invariant_def pipeline_def)
  from c have e: "\<forall>t\<in>set (threads p). t = []" by simp
  show ?thesis
    using True e st
    by (simp add: invariant_def pipeline_def app_solve_def post_defs Let_def allowed_def
        q c worker_chain)
qed

lemma invariant_worker:
  assumes "invariant p"
  shows "invariant (step (Worker k) p)"
proof (cases "k < length (threads p)")
  case False
  with assms show ?thesis by simp
next
  case True
  then obtain t ts where ts: "threads p = t # ts" by (cases "threads p") auto
  from assms ts have old: "\<forall>x\<in>set ts. x = []" by (simp add: invariant_def)
  show ?thesis
  proof (cases k)
    case 0
    show ?thesis
    proof (cases t)
      case Nil
      with 0 ts assms show ?thesis by simp
    next
      case (Cons cb rest)
      with 0 ts assms show ?thesis
        by (simp add: invariant_def pipeline_def post_defs)
    qed
  next
    case (Suc k')
    with True ts have "ts ! k' \<in> set ts" by simp
    with old have "ts ! k' = []" by blast
    with Suc ts assms show ?thesis by simp
  qed
qed

lemma run_callback_after_queue [simp]: "after_queue (run_callback cb s) = after_queue s"
  by (cases cb) simp_all

lemma invariant_mainloop:
  assumes "invariant p"
  shows "invariant (step Mainloop p)"
proof (cases "after_queue (gui p)")
  case Nil
  with assms show ?thesis by (simp add: mainloop_once_def)
next
  case (Cons cb q)
  with assms have d: "solve_button (gui p) = DISABLED"
    by (cases "solve_button (gui p)") (simp_all add: invariant_def pipeline_def)
  from assms Cons show ?thesis
    using d
    by (cases cb)
      (auto simp: invariant_def pipeline_def mainloop_once_def allowed_def terminal_def
        concat_all_Nil)
qed

lemma invariant_step: "invariant p \<Longrightarrow> regular_event e \<Longrightarrow> invariant (step e p)"
  by (cases e) (simp_all only: invariant_click invariant_worker invariant_mainloop regular_event.simps)

lemma invariant_run: "invariant p \<Longrightarrow> list_all regular_event es \<Longrightarrow> invariant (run es p)"
proof (induction es arbitrary: p)
  case Nil
  then show ?case by (simp add: run_def)
next
  case (Cons e es)
  then have "invariant (step e p)" by (simp add: invariant_step)
  with Cons have "invariant (run es (step e p))" by simp
  then show ?case by (simp add: run_def)
qed

lemma status_step:
  assumes "invariant p" and "regular_event e"
  shows "status_var (gui (step e p)) = status_var (gui p) \<or>
         allowed (status_var (gui p)) (status_var (gui (step e p)))"
proof (cases e)
  case (Click env)
  then show ?thesis by (simp add: app_solve_def post_defs Let_def)
next
  case (Call_solve env)
  with assms show ?thesis by simp
next
  case (Worker k)
  then show ?thesis by (simp add: post_defs split: list.splits)
next
  case Mainloop
  show ?thesis
  proof (cases "after_queue (gui p)")
    case Nil
    with Mainloop show ?thesis by (simp add: mainloop_once_def)
  next
    case (Cons cb q)
    with assms Mainloop show ?thesis
      by (cases cb) (simp_all add: invariant_def pipeline_def mainloop_once_def)
  qed
qed


lemma demo_try_solve_any: "try_solve demo_env s = Inr (demo_creator, Some 0)"
  by (simp add: try_solve_def demo_env_def demo_creator_def)

lemma demo_worker_posts:
  "output_path s = ''out.png'' \<Longrightarrow>
   worker_posts demo_env s =
     [WriteOutput ''a#\<newline> b'', StatusVarSet ''Solved'', ShowError pillow_message, ButtonNormal]"
  by (simp add: worker_posts_solved [OF demo_try_solve_any demo_format] save_posts_def
      save_image_def demo_creator_def post_defs)

lemma demo_solving_eval:
  "demo_solving =
     \<lparr> gui = init\<lparr>output_path := ''out.png'', status_var := ''Solving...'',
                  solve_button := DISABLED\<rparr>,
       threads = [[WriteOutput ''a#\<newline> b'', StatusVarSet ''Solved'',
                   ShowError pillow_message, ButtonNormal]] \<rparr>"
  by (simp add: demo_solving_def run_def startup_def init_def app_solve_def post_defs
      mainloop_once_def demo_worker_posts DEFAULT_STRUCTURE_def DEFAULT_WORDS_def)

lemma demo_published_eval:
  "demo_published =
     \<lparr> gui = init\<lparr>output_path := ''out.png'', status_var := ''Solved'',
                  solve_button := DISABLED, output_text := ''a#\<newline> b''\<rparr>,
       threads = [[ShowError pillow_message, ButtonNormal]] \<rparr>"
  by (simp add: demo_published_def run_def startup_def init_def app_solve_def post_defs
      mainloop_once_def demo_worker_posts DEFAULT_STRUCTURE_def DEFAULT_WORDS_def
      write_output_def output_delete_all_def output_insert_end_def)

text \<open>
  Claim C1, as stated, fails: \<^verbatim>\<open>_solve\<close> has no guard of its own. In the state reached by
  one click and one turn of the event loop the status is Solving and one worker is alive;
  a direct call of \<^verbatim>\<open>_solve\<close> there starts a second worker and schedules another status
  change.
\<close>

theorem call_solve_while_solving_counterexample:
  "state_of (status_var (gui demo_solving)) = Some Solving \<and>
   solve_button (gui demo_solving) = DISABLED \<and>
   length (filter (\<lambda>t. t \<noteq> []) (threads demo_solving)) = 1 \<and>
   length (filter (\<lambda>t. t \<noteq> []) (threads (step (Call_solve demo_env) demo_solving))) = 2 \<and>
   after_queue (gui (step (Call_solve demo_env) demo_solving)) = [StatusVarSet ''Solving...''] \<and>
   after_queue (gui demo_solving) = []"
  by (simp add: demo_solving_eval init_def app_solve_def post_defs demo_worker_posts)

text \<open>
  Claim C1, amended. In every state the program reaches through clicks, worker posts and
  event-loop turns, if the status is Solving then the Solve button is disabled, a click on
  it changes nothing (no worker is started, no state changes), and at most one worker is
  alive. The guard is the disabled button only: a direct call of \<^verbatim>\<open>_solve\<close> starts a
  further worker.
\<close>

theorem click_while_solving_ignored:
  assumes "list_all regular_event es"
    and "p = run es (startup sp wp op)"
    and "state_of (status_var (gui p)) = Some Solving"
  shows "solve_button (gui p) = DISABLED \<and> step (Click env) p = p \<and>
         length (filter (\<lambda>t. t \<noteq> []) (threads p)) \<le> 1 \<and>
         threads (step (Call_solve env) p) = worker_posts env
            ((gui p)\<lparr>after_queue := after_queue (gui p) @ [StatusVarSet ''Solving...''],
                     solve_button := DISABLED\<rparr>) # threads p"
proof -
  have inv: "invariant p"
    using assms(1,2) by (simp add: invariant_run invariant_startup)
  with assms(3) have d: "solve_button (gui p) = DISABLED"
    by (cases "solve_button (gui p)") (simp_all add: invariant_def)
  from inv have "\<forall>t\<in>set (tl (threads p)). t = []"
    by (simp add: invariant_def)
  then have "filter (\<lambda>t. t \<noteq> []) (tl (threads p)) = []"
    by (simp add: filter_empty_conv)
  then have "length (filter (\<lambda>t. t \<noteq> []) (threads p)) \<le> 1"
    by (cases "threads p") simp_all
  with d show ?thesis
    by (simp add: app_solve_def post_defs Let_def)
qed

theorem click_while_solving_ignored_witness:
  "list_all regular_event [Click demo_env, Mainloop] \<and>
   state_of (status_var (gui demo_solving)) = Some Solving \<and>
   step (Click demo_env) demo_solving = demo_solving \<and>
   length (threads (step (Call_solve demo_env) demo_solving)) = 2"
proof -
  have e: "list_all regular_event [Click demo_env, Mainloop]" by simp
  have s: "state_of (status_var (gui demo_solving)) = Some Solving"
    by (simp add: demo_solving_eval)
  from click_while_solving_ignored [OF e demo_solving_def s, of demo_env] e s
  show ?thesis
    by (simp add: demo_solving_eval)
qed

text \<open>
  Claim C7, as stated, fails in its last part: once the worker has posted the grid and the
  status Solved and the event loop has run both callbacks, the state is Solved and not
  Solving, while the button stays disabled until the worker's last callback has run (the
  image is saved in between).
\<close>

theorem enabled_iff_not_solving_counterexample:
  "state_of (status_var (gui demo_published)) = Some Solved \<and>
   solve_button (gui demo_published) = DISABLED"
  by (simp add: demo_published_eval)

lemma worker_step_view:
  assumes "\<forall>t\<in>set (tl (threads p)). t = []"
  shows "pipeline (step (Worker k) p) = pipeline p"
    and "status_var (gui (step (Worker k) p)) = status_var (gui p)"
    and "solve_button (gui (step (Worker k) p)) = solve_button (gui p)"
    and "\<forall>t\<in>set (tl (threads (step (Worker k) p))). t = []"
proof -
  have "pipeline (step (Worker k) p) = pipeline p \<and>
        status_var (gui (step (Worker k) p)) = status_var (gui p) \<and>
        solve_button (gui (step (Worker k) p)) = solve_button (gui p) \<and>
        (\<forall>t\<in>set (tl (threads (step (Worker k) p))). t = [])"
  proof (cases "k < length (threads p)")
    case False
    with assms show ?thesis by simp
  next
    case True
    then obtain t ts where ts: "threads p = t # ts" by (cases "threads p") auto
    from assms ts have old: "\<forall>x\<in>set ts. x = []" by simp
    show ?thesis
    proof (cases k)
      case 0
      with ts old show ?thesis
        by (cases t) (simp_all add: pipeline_def post_defs)
    next
      case (Suc k')
      with True ts have "ts ! k' \<in> set ts" by simp
      with old have "ts ! k' = []" by blast
      with Suc ts assms show ?thesis by simp
    qed
  qed
  then show "pipeline (step (Worker k) p) = pipeline p"
    and "status_var (gui (step (Worker k) p)) = status_var (gui p)"
    and "solve_button (gui (step (Worker k) p)) = solve_button (gui p)"
    and "\<forall>t\<in>set (tl (threads (step (Worker k) p))). t = []"
    by simp_all
qed

lemma mainloop_idle: "after_queue (gui p) = [] \<Longrightarrow> step Mainloop p = p"
  by (simp add: mainloop_once_def)

lemma mainloop_step_view:
  assumes "after_queue (gui p) = cb # q"
  shows "pipeline p = cb # pipeline (step Mainloop p)"
    and "gui (step Mainloop p) = run_callback cb ((gui p)\<lparr>after_queue := q\<rparr>)"
    and "threads (step Mainloop p) = threads p"
  using assms by (simp_all add: pipeline_def mainloop_once_def)

lemma click_step_view:
  assumes "solve_button (gui p) = NORMAL" and "pipeline p = []"
  shows "pipeline (step (Click env) p) =
           StatusVarSet ''Solving...'' #
           worker_posts env ((gui p)\<lparr>after_queue := [StatusVarSet ''Solving...''],
                                     solve_button := DISABLED\<rparr>)"
    and "status_var (gui (step (Click env) p)) = status_var (gui p)"
    and "solve_button (gui (step (Click env) p)) = DISABLED"
  using assms by (simp_all add: pipeline_def app_solve_def post_defs Let_def)

lemma status_texts_notices:
  "\<forall>cb\<in>set n. \<not> publishes_status cb \<Longrightarrow> status_texts (n @ cbs) = status_texts cbs"
proof (induction n)
  case Nil
  then show ?case by simp
next
  case (Cons cb n)
  then show ?case by (cases cb) simp_all
qed

lemma worker_posts_course:
  assumes "renderable env s"
  shows "\<exists>t. terminal t \<and> status_texts (worker_posts env s) = [t] \<and>
             worker_posts env s \<noteq> [] \<and> last (worker_posts env s) = ButtonNormal \<and>
             length (filter (\<lambda>cb. cb = ButtonNormal) (worker_posts env s)) = 1"
proof (cases "try_solve env s")
  case (Inl exc)
  then show ?thesis
    by (simp add: worker_posts_error)
next
  case (Inr r)
  obtain creator res where r: "r = (creator, res)" by (cases r)
  show ?thesis
  proof (cases res)
    case None
    with Inr r show ?thesis
      by (simp add: worker_posts_no_solution)
  next
    case (Some a)
    with assms Inr r have "renders creator a"
      by (simp add: renderable_def)
    then have "\<exists>t. format_assignment creator a = Inr t"
      by (simp only: format_Inr_iff)
    then obtain grid_text where g: "format_assignment creator a = Inr grid_text" ..
    from Inr r Some have t: "try_solve env s = Inr (creator, Some a)" by simp
    have "status_texts (save_posts creator a s @ [ButtonNormal]) = status_texts [ButtonNormal]"
      by (rule status_texts_notices) (simp add: save_posts_notices)
    then show ?thesis
      by (simp add: worker_posts_solved [OF t g] save_posts_filter)
  qed
qed

lemma worker_posts_last:
  "worker_posts env s = [] \<or> last (worker_posts env s) = ButtonNormal"
  using worker_posts_course [of env s] worker_escape [of env s] by blast

lemma renderable_paths:
  "structure_path s' = structure_path s \<Longrightarrow> words_path s' = words_path s \<Longrightarrow>
   renderable env s' = renderable env s"
  by (simp add: renderable_def try_solve_def)

lemma run_callback_paths [simp]:
  "structure_path (run_callback cb s) = structure_path s"
  "words_path (run_callback cb s) = words_path s"
  by (cases cb; simp add: write_output_def output_delete_all_def output_insert_end_def)+

lemma step_paths:
  "structure_path (gui (step e p)) = structure_path (gui p) \<and>
   words_path (gui (step e p)) = words_path (gui p)"
  by (cases e)
    (simp_all add: app_solve_def post_defs Let_def mainloop_once_def split: list.splits)

lemma run_Cons: "run (e # es) p = run es (step e p)"
  by (simp add: run_def)

lemma run_append: "run (es @ es') p = run es' (run es p)"
  by (simp add: run_def)

lemma run_paths:
  "structure_path (gui (run es p)) = structure_path (gui p) \<and>
   words_path (gui (run es p)) = words_path (gui p)"
proof (induction es arbitrary: p)
  case Nil
  then show ?case by (simp add: run_def)
next
  case (Cons e es)
  then show ?case by (simp add: run_Cons step_paths)
qed

lemma invariant_threads: "invariant p \<Longrightarrow> \<forall>t\<in>set (tl (threads p)). t = []"
  by (simp add: invariant_def)

lemma invariant_normal: "invariant p \<Longrightarrow> solve_button (gui p) = NORMAL \<Longrightarrow> pipeline p = []"
  by (simp add: invariant_def)

lemma not_normal [simp]: "(b \<noteq> NORMAL) = (b = DISABLED)"
  by (cases b) simp_all


lemma mainloop_status:
  assumes "after_queue (gui p) = cb # q"
  shows "status_var (gui (step Mainloop p)) = status_after cb (status_var (gui p))"
    and "solve_button (gui (step Mainloop p)) =
           (if cb = ButtonNormal then NORMAL else solve_button (gui p))"
  unfolding mainloop_step_view(2) [OF assms] by (cases cb; simp)+

lemma quiet_pop:
  assumes "P = cb # P'" and "cb \<noteq> ButtonNormal"
    and "P = [] \<or> last P = ButtonNormal \<or> P = [StatusVarSet ''Solving...'']"
  shows "(P' = [] \<longrightarrow> state_of (status_after cb cur) = Some Solving) \<and>
         (P' = [] \<or> last P' = ButtonNormal \<or> P' = [StatusVarSet ''Solving...''])"
  using assms by (cases "P' = []") auto

lemma course_pop:
  assumes "P = cb # P'" and "cb \<noteq> ButtonNormal"
    and "last P = ButtonNormal"
    and "length (filter (\<lambda>cb. cb = ButtonNormal) P) = 1"
    and "awaited cur (status_texts P)"
  shows "P' \<noteq> [] \<and> last P' = ButtonNormal \<and>
         length (filter (\<lambda>cb. cb = ButtonNormal) P') = 1 \<and>
         awaited (status_after cb cur) (status_texts P')"
proof -
  from assms(1-3) have n: "P' \<noteq> []" by auto
  with assms(1,3) have l: "last P' = ButtonNormal" by simp
  from assms(1,2,4) have c: "length (filter (\<lambda>cb. cb = ButtonNormal) P') = 1" by simp
  have "awaited (status_after cb cur) (status_texts P')"
  proof (cases cb)
    case (StatusVarSet t)
    with assms(1,5) have "awaited cur (t # status_texts P')" by simp
    then show ?thesis
      unfolding StatusVarSet
      by (cases "status_texts P'"; cases "tl (status_texts P')") auto
  qed (use assms(1,5) in simp_all)
  with n l c show ?thesis by simp
qed

lemma quiet_step:
  assumes inv: "invariant p" and q: "quiet_is_solving p" and e: "regular_event e"
  shows "quiet_is_solving (step e p)"
proof (cases e)
  case (Click env)
  show ?thesis
  proof (cases "solve_button (gui p) = NORMAL")
    case False
    with q Click show ?thesis by simp
  next
    case True
    note v = click_step_view [OF True invariant_normal [OF inv True], of env]
    show ?thesis
      using worker_posts_last [of env "(gui p)\<lparr>after_queue := [StatusVarSet ''Solving...''],
          solve_button := DISABLED\<rparr>"]
      unfolding Click quiet_is_solving_def v by auto
  qed
next
  case (Call_solve env)
  with e show ?thesis by simp
next
  case (Worker k)
  show ?thesis
    using q unfolding Worker quiet_is_solving_def worker_step_view [OF invariant_threads [OF inv]] .
next
  case Mainloop
  show ?thesis
  proof (cases "after_queue (gui p)")
    case Nil
    show ?thesis unfolding Mainloop mainloop_idle [OF Nil] by (rule q)
  next
    case (Cons cb rest)
    note v = mainloop_step_view(1) [OF Cons] and m = mainloop_status [OF Cons]
    show ?thesis
    proof (cases "cb = ButtonNormal \<or> solve_button (gui p) = NORMAL")
      case True
      then show ?thesis
        unfolding Mainloop quiet_is_solving_def m by auto
    next
      case False
      with q have "pipeline p = [] \<or> last (pipeline p) = ButtonNormal \<or>
          pipeline p = [StatusVarSet ''Solving...'']"
        by (simp add: quiet_is_solving_def)
      from quiet_pop [OF v _ this, of "status_var (gui p)"] False
      show ?thesis
        unfolding Mainloop quiet_is_solving_def m by blast
    qed
  qed
qed

lemma course_step:
  assumes inv: "invariant p" and c: "on_course p" and e: "regular_event e"
    and s: "sound_event (gui p) e"
  shows "on_course (step e p)"
proof (cases e)
  case (Click env)
  show ?thesis
  proof (cases "solve_button (gui p) = NORMAL")
    case False
    with c Click show ?thesis by simp
  next
    case True
    note v = click_step_view [OF True invariant_normal [OF inv True], of env]
    let ?s = "(gui p)\<lparr>after_queue := [StatusVarSet ''Solving...''], solve_button := DISABLED\<rparr>"
    from s Click have "renderable env (gui p)" by simp
    then have "renderable env ?s"
      by (simp add: renderable_paths [of ?s "gui p"])
    from worker_posts_course [OF this] obtain t where "terminal t"
      and "status_texts (worker_posts env ?s) = [t]"
      and "worker_posts env ?s \<noteq> []" and "last (worker_posts env ?s) = ButtonNormal"
      and "length (filter (\<lambda>cb. cb = ButtonNormal) (worker_posts env ?s)) = 1"
      by blast
    moreover from inv True have "state_of (status_var (gui p)) \<noteq> Some Solving"
      by (simp add: invariant_def)
    ultimately show ?thesis
      unfolding Click on_course_def v by simp
  qed
next
  case (Call_solve env)
  with e show ?thesis by simp
next
  case (Worker k)
  show ?thesis
    using c unfolding Worker on_course_def worker_step_view [OF invariant_threads [OF inv]] .
next
  case Mainloop
  show ?thesis
  proof (cases "after_queue (gui p)")
    case Nil
    show ?thesis unfolding Mainloop mainloop_idle [OF Nil] by (rule c)
  next
    case (Cons cb rest)
    note v = mainloop_step_view(1) [OF Cons] and m = mainloop_status [OF Cons]
    show ?thesis
    proof (cases "cb = ButtonNormal \<or> solve_button (gui p) = NORMAL")
      case True
      then show ?thesis
        unfolding Mainloop on_course_def m by auto
    next
      case False
      with c have "last (pipeline p) = ButtonNormal"
        "length (filter (\<lambda>cb. cb = ButtonNormal) (pipeline p)) = 1"
        "awaited (status_var (gui p)) (status_texts (pipeline p))"
        by (simp_all add: on_course_def)
      from course_pop [OF v _ this] False
      show ?thesis
        unfolding Mainloop on_course_def m by blast
    qed
  qed
qed

lemma sound_event_paths:
  "structure_path s' = structure_path s \<Longrightarrow> words_path s' = words_path s \<Longrightarrow>
   sound_event s' e = sound_event s e"
  by (cases e) (simp_all add: renderable_paths [where s' = s' and s = s])

lemma quiet_run:
  "invariant p \<Longrightarrow> quiet_is_solving p \<Longrightarrow> list_all regular_event es \<Longrightarrow>
   quiet_is_solving (run es p)"
proof (induction es arbitrary: p)
  case Nil
  then show ?case by (simp add: run_def)
next
  case (Cons e es)
  then have i: "invariant (step e p)" and q: "quiet_is_solving (step e p)"
    by (simp_all add: invariant_step quiet_step)
  from Cons.prems have r: "list_all regular_event es" by simp
  have "quiet_is_solving (run es (step e p))"
    by (rule Cons.IH [OF i q r])
  then show ?case by (simp only: run_Cons)
qed

lemma course_run:
  "invariant p \<Longrightarrow> on_course p \<Longrightarrow> list_all regular_event es \<Longrightarrow>
   list_all (sound_event (gui p)) es \<Longrightarrow> on_course (run es p)"
proof (induction es arbitrary: p)
  case Nil
  then show ?case by (simp add: run_def)
next
  case (Cons e es)
  then have i: "invariant (step e p)" and c: "on_course (step e p)"
    by (simp_all add: invariant_step course_step)
  have eq: "sound_event (gui (step e p)) x = sound_event (gui p) x" for x
    using step_paths [of e p] by (intro sound_event_paths) simp_all
  from Cons.prems have s: "list_all (sound_event (gui (step e p))) es"
    by (simp add: list_all_iff eq)
  from Cons.prems have r: "list_all regular_event es" by simp
  have "on_course (run es (step e p))"
    by (rule Cons.IH [OF i c r s])
  then show ?case by (simp only: run_Cons)
qed

lemma startup_quiet: "quiet_is_solving (startup sp wp op)"
  by (simp add: quiet_is_solving_def startup_def init_def)

lemma startup_course: "on_course (startup sp wp op)"
  by (simp add: on_course_def startup_def init_def)

lemma run_workers:
  "threads p = t # ts \<Longrightarrow>
   run (replicate (length t) (Worker 0 :: unit event)) p =
     p\<lparr>gui := (gui p)\<lparr>after_queue := after_queue (gui p) @ t\<rparr>, threads := [] # ts\<rparr>"
proof (induction t arbitrary: p)
  case Nil
  then show ?case by (simp add: run_def)
next
  case (Cons cb t)
  let ?p = "p\<lparr>gui := after cb (gui p), threads := t # ts\<rparr>"
  from Cons.prems have "step (Worker 0 :: unit event) p = ?p" by simp
  moreover have "threads ?p = t # ts" by simp
  ultimately show ?case
    using Cons.IH [of ?p] by (simp add: run_Cons post_defs)
qed

lemma run_mainloops:
  "run (replicate n (Mainloop :: unit event)) p = p\<lparr>gui := (mainloop_once ^^ n) (gui p)\<rparr>"
proof (induction n arbitrary: p)
  case 0
  then show ?case by (simp add: run_def)
next
  case (Suc n)
  then show ?case by (simp add: run_Cons funpow_swap1)
qed

lemma run_callbacks_append:
  "run_callbacks (xs @ ys) s = run_callbacks ys (run_callbacks xs s)"
  by (simp add: run_callbacks_def)

lemma run_callbacks_after_queue [simp]: "after_queue (run_callbacks cbs s) = after_queue s"
  by (induction cbs arbitrary: s) simp_all

lemma finish_gui:
  assumes "\<forall>t\<in>set (tl (threads p)). t = []"
  shows "gui (finish p) = run_callbacks (pipeline p) ((gui p)\<lparr>after_queue := []\<rparr>) \<and>
         pipeline (finish p) = []"
proof (cases "threads p")
  case Nil
  then have "finish p = p\<lparr>gui := (mainloop_once ^^ length (after_queue (gui p))) (gui p)\<rparr>"
    by (simp add: finish_def pipeline_def run_mainloops)
  moreover have "(mainloop_once ^^ length (after_queue (gui p))) (gui p) =
      run_callbacks (after_queue (gui p)) ((gui p)\<lparr>after_queue := []\<rparr>)"
    using mainloop_drains [of "after_queue (gui p)" "gui p"] by simp
  ultimately show ?thesis
    using Nil by (simp add: pipeline_def)
next
  case (Cons t ts)
  with assms have ts: "concat ts = []" by simp
  let ?q = "after_queue (gui p) @ t"
  let ?p = "p\<lparr>gui := (gui p)\<lparr>after_queue := ?q\<rparr>, threads := [] # ts\<rparr>"
  have "finish p = ?p\<lparr>gui := (mainloop_once ^^ length ?q) (gui ?p)\<rparr>"
    by (simp add: finish_def pipeline_def run_append run_workers [OF Cons] run_mainloops Cons ts)
  moreover have "(mainloop_once ^^ length ?q) (gui ?p) =
      run_callbacks ?q ((gui p)\<lparr>after_queue := []\<rparr>)"
    using mainloop_drains [of ?q "gui p"] by simp
  ultimately show ?thesis
    by (simp add: pipeline_def Cons ts)
qed

lemma run_callbacks_status:
  "status_var (run_callbacks cbs s) =
     (if status_texts cbs = [] then status_var s else last (status_texts cbs))"
proof (induction cbs arbitrary: s)
  case Nil
  then show ?case by simp
next
  case (Cons cb cbs)
  then show ?case by (cases cb) simp_all
qed

lemma run_callbacks_button:
  assumes "cbs \<noteq> []" and "last cbs = ButtonNormal"
  shows "solve_button (run_callbacks cbs s) = NORMAL"
proof -
  from assms have e: "butlast cbs @ [ButtonNormal] = cbs"
    using append_butlast_last_id [of cbs] by simp
  have "run_callbacks (butlast cbs @ [ButtonNormal]) s =
        run_callback ButtonNormal (run_callbacks (butlast cbs) s)"
    by (simp add: run_callbacks_append)
  then have "run_callbacks cbs s = run_callback ButtonNormal (run_callbacks (butlast cbs) s)"
    by (simp only: e)
  then show ?thesis by simp
qed

lemma awaited_last:
  "awaited cur ts \<Longrightarrow> terminal (if ts = [] then cur else last ts)"
  by (cases "(cur, ts)" rule: awaited.cases) simp_all

lemma awaited_solving:
  "awaited cur ts \<Longrightarrow> state_of cur = Some Solving \<Longrightarrow> ts = [last ts] \<and> ts \<noteq> []"
  by (cases "(cur, ts)" rule: awaited.cases) (simp_all add: terminal_def)

lemma demo_renderable_any: "renderable demo_env s"
  using demo_well_formed
  by (simp add: renderable_def demo_try_solve_any renders_def demo_letter_grid well_formed_def)

text \<open>
  Claim C7, amended. In every state the program reaches through clicks, worker posts and
  event-loop turns: the status is one of the five states; the button is enabled if and only
  if the state is not Solving and nothing is pending (no callback scheduled, none the worker
  has yet to schedule); from such a state a click followed by one turn of the event loop
  leads to Solving with the button disabled, be the state Idle or terminal (the status is
  not set back to Idle); and a step changes the status, if at all, into Solving from
  another state or out of Solving into a terminal state. When moreover no worker died in
  rendering: the button is enabled exactly when nothing is pending; while it is disabled,
  letting the worker post and the event loop run what is pending ends in a terminal state
  with the button enabled; and while the state is Solving exactly one status is still to be
  published, the terminal state so reached.
\<close>

theorem status_machine:
  assumes "list_all regular_event es"
    and "p = run es (startup sp wp op)"
  shows "state_of (status_var (gui p)) \<noteq> None \<and>
         (solve_button (gui p) = NORMAL \<longleftrightarrow>
            state_of (status_var (gui p)) \<noteq> Some Solving \<and> pipeline p = []) \<and>
         (solve_button (gui p) = NORMAL \<longrightarrow>
            state_of (status_var (gui (run [Click env, Mainloop] p))) = Some Solving \<and>
            solve_button (gui (run [Click env, Mainloop] p)) = DISABLED) \<and>
         (\<forall>e. regular_event e \<longrightarrow>
            status_var (gui (step e p)) = status_var (gui p) \<or>
            allowed (status_var (gui p)) (status_var (gui (step e p)))) \<and>
         (list_all (sound_event (gui (startup sp wp op))) es \<longrightarrow>
            (solve_button (gui p) = NORMAL \<longleftrightarrow> pipeline p = []) \<and>
            (solve_button (gui p) = DISABLED \<longrightarrow>
               terminal (status_var (gui (finish p))) \<and>
               solve_button (gui (finish p)) = NORMAL \<and> pipeline (finish p) = []) \<and>
            (state_of (status_var (gui p)) = Some Solving \<longrightarrow>
               status_texts (pipeline p) = [status_var (gui (finish p))] \<and>
               terminal (status_var (gui (finish p)))))"
proof -
  have inv: "invariant p"
    using assms by (simp add: invariant_run invariant_startup)
  have quiet: "quiet_is_solving p"
    using assms by (simp add: quiet_run invariant_startup startup_quiet)
  from inv have a: "state_of (status_var (gui p)) \<noteq> None"
    by (simp add: invariant_def)
  have n: "state_of (status_var (gui p)) \<noteq> Some Solving \<and> pipeline p = []"
    if "solve_button (gui p) = NORMAL"
    using inv that by (simp add: invariant_def)
  have b: "solve_button (gui p) = NORMAL \<longleftrightarrow>
      state_of (status_var (gui p)) \<noteq> Some Solving \<and> pipeline p = []"
  proof
    assume "solve_button (gui p) = NORMAL"
    then show "state_of (status_var (gui p)) \<noteq> Some Solving \<and> pipeline p = []" by (rule n)
  next
    assume "state_of (status_var (gui p)) \<noteq> Some Solving \<and> pipeline p = []"
    with quiet show "solve_button (gui p) = NORMAL"
      by (cases "solve_button (gui p)") (simp_all add: quiet_is_solving_def)
  qed
  have c: "state_of (status_var (gui (run [Click env, Mainloop] p))) = Some Solving \<and>
      solve_button (gui (run [Click env, Mainloop] p)) = DISABLED"
    if "solve_button (gui p) = NORMAL"
  proof -
    from n [OF that] have "after_queue (gui p) = []" by (simp add: pipeline_def)
    with that show ?thesis
      by (simp add: run_def app_solve_def post_defs mainloop_once_def Let_def)
  qed
  have d: "\<forall>e. regular_event e \<longrightarrow>
      status_var (gui (step e p)) = status_var (gui p) \<or>
      allowed (status_var (gui p)) (status_var (gui (step e p)))"
    using inv by (simp add: status_step)
  have e: "(solve_button (gui p) = NORMAL \<longleftrightarrow> pipeline p = []) \<and>
      (solve_button (gui p) = DISABLED \<longrightarrow>
         terminal (status_var (gui (finish p))) \<and>
         solve_button (gui (finish p)) = NORMAL \<and> pipeline (finish p) = []) \<and>
      (state_of (status_var (gui p)) = Some Solving \<longrightarrow>
         status_texts (pipeline p) = [status_var (gui (finish p))] \<and>
         terminal (status_var (gui (finish p))))"
    if sound: "list_all (sound_event (gui (startup sp wp op))) es"
  proof -
    have course: "on_course p"
      unfolding assms(2)
      by (rule course_run [OF invariant_startup startup_course assms(1) sound])
    note f = finish_gui [OF invariant_threads [OF inv]]
    have st: "status_var (gui (finish p)) =
        (if status_texts (pipeline p) = [] then status_var (gui p)
         else last (status_texts (pipeline p)))"
      using f by (simp add: run_callbacks_status)
    have dis: "pipeline p \<noteq> [] \<and> terminal (status_var (gui (finish p))) \<and>
        solve_button (gui (finish p)) = NORMAL \<and> pipeline (finish p) = [] \<and>
        awaited (status_var (gui p)) (status_texts (pipeline p))"
      if "solve_button (gui p) = DISABLED"
    proof -
      from course that have p: "pipeline p \<noteq> []" "last (pipeline p) = ButtonNormal"
        "awaited (status_var (gui p)) (status_texts (pipeline p))"
        by (simp_all add: on_course_def)
      from awaited_last [OF p(3)] have "terminal (status_var (gui (finish p)))"
        by (simp only: st)
      moreover have "solve_button (gui (finish p)) = NORMAL"
        using f run_callbacks_button [OF p(1,2)] by simp
      ultimately show ?thesis using f p by simp
    qed
    have e0: "solve_button (gui p) = NORMAL \<longleftrightarrow> pipeline p = []"
      using n dis by (cases "solve_button (gui p)") auto
    have e2: "status_texts (pipeline p) = [status_var (gui (finish p))] \<and>
        terminal (status_var (gui (finish p)))"
      if s: "state_of (status_var (gui p)) = Some Solving"
    proof -
      from s n have "solve_button (gui p) = DISABLED"
        by (cases "solve_button (gui p)") auto
      note x = dis [OF this]
      from awaited_solving [OF _ s] x
      have "status_texts (pipeline p) = [last (status_texts (pipeline p))]"
        and "status_texts (pipeline p) \<noteq> []" by blast+
      with st x show ?thesis by simp
    qed
    from e0 dis e2 show ?thesis by blast
  qed
  show ?thesis
    by (intro conjI impI allI) (use a b c d e in \<open>blast+\<close>)
qed

theorem status_machine_witness:
  "list_all regular_event [Click demo_env, Mainloop] \<and>
   list_all (sound_event (gui (startup DEFAULT_STRUCTURE DEFAULT_WORDS ''out.png'')))
     [Click demo_env, Mainloop] \<and>
   regular_event (Mainloop :: nat event) \<and>
   solve_button (gui (startup DEFAULT_STRUCTURE DEFAULT_WORDS ''out.png'')) = NORMAL \<and>
   state_of (status_var (gui (run [Click demo_env, Mainloop]
     (startup DEFAULT_STRUCTURE DEFAULT_WORDS ''out.png'')))) = Some Solving \<and>
   status_var (gui (run [Click demo_env]
     (startup DEFAULT_STRUCTURE DEFAULT_WORDS ''out.png''))) = ''Idle'' \<and>
   status_var (gui (step (Mainloop :: nat event) (run [Click demo_env]
     (startup DEFAULT_STRUCTURE DEFAULT_WORDS ''out.png'')))) = ''Solving...'' \<and>
   allowed ''Idle'' ''Solving...'' \<and>
   solve_button (gui demo_solving) = DISABLED \<and>
   status_texts (pipeline demo_solving) = [''Solved''] \<and>
   status_var (gui (finish demo_solving)) = ''Solved'' \<and>
   solve_button (gui (finish demo_solving)) = NORMAL \<and>
   pipeline (finish demo_solving) = []"
proof -
  let ?p0 = "startup DEFAULT_STRUCTURE DEFAULT_WORDS ''out.png''"
  have e0: "list_all regular_event ([] :: nat event list)" by simp
  have e1: "list_all regular_event [Click demo_env]" by simp
  have e2: "list_all regular_event [Click demo_env, Mainloop]" by simp
  have s2: "list_all (sound_event (gui ?p0)) [Click demo_env, Mainloop]"
    by (simp add: demo_renderable_any)
  have um: "regular_event (Mainloop :: nat event)" by simp
  have r0: "?p0 = run ([] :: nat event list) ?p0" by (simp add: run_def)
  have n: "solve_button (gui ?p0) = NORMAL" by (simp add: startup_def init_def)
  have i: "status_var (gui (run [Click demo_env] ?p0)) = ''Idle''"
    by (simp add: run_def startup_def init_def app_solve_def post_defs Let_def)
  have s: "status_var (gui (step (Mainloop :: nat event) (run [Click demo_env] ?p0))) = ''Solving...''"
    by (simp add: run_def startup_def init_def app_solve_def post_defs mainloop_once_def
        Let_def)
  from status_machine [OF e0 r0, of demo_env] n
  have a: "state_of (status_var (gui (run [Click demo_env, Mainloop] ?p0))) = Some Solving"
    by blast
  from status_machine [OF e1 refl, of DEFAULT_STRUCTURE DEFAULT_WORDS "''out.png''" demo_env]
  have "status_var (gui (step (Mainloop :: nat event) (run [Click demo_env] ?p0))) =
          status_var (gui (run [Click demo_env] ?p0)) \<or>
        allowed (status_var (gui (run [Click demo_env] ?p0)))
          (status_var (gui (step (Mainloop :: nat event) (run [Click demo_env] ?p0))))"
    using um by blast
  with i s have al: "allowed ''Idle'' ''Solving...''" by simp
  have d: "solve_button (gui demo_solving) = DISABLED"
    and sv: "state_of (status_var (gui demo_solving)) = Some Solving"
    and t: "status_texts (pipeline demo_solving) = [''Solved'']"
    by (simp_all add: demo_solving_eval pipeline_def init_def)
  from status_machine [OF e2 demo_solving_def, of demo_env] s2 d sv
  have f: "status_texts (pipeline demo_solving) = [status_var (gui (finish demo_solving))]"
    "solve_button (gui (finish demo_solving)) = NORMAL" "pipeline (finish demo_solving) = []"
    by blast+
  from f(1) t have "status_var (gui (finish demo_solving)) = ''Solved''" by simp
  with e2 s2 um n a i s al d t f show ?thesis by simp
qed

end
